theory Spec2Isabelle
  imports Main "HOL-Library.AList"
begin

section \<open>Python values\<close>

text \<open>
  A model of \<^verbatim>\<open>ckan/migration/migrate_package_activity.py\<close>, the script that stores in every
  Activity of a dataset the dataset as it was at the Activity's revision. The functions of the
  script are state transformers that return an exception or a value together with the new
  state; the actions of \<^verbatim>\<open>ckan.logic\<close> that the script calls are parameters. The block
  under \<^verbatim>\<open>__main__\<close> (argument parsing, loading of the configuration, dispatch) is not
  modelled.

  The script handles JSON-like values:
  the dataset returned by \<^verbatim>\<open>package_show\<close> and the \<^verbatim>\<open>data\<close> column of an Activity row.
  A dict is an association list (insertion order kept, looked up with \<open>map_of\<close>).
  Numbers are integers (a float is not modelled); the script tests a number for truth only.
  The values are trees: no object is shared between two places of a value.
\<close>

datatype json =
    JNull
  | JBool bool
  | JInt int
  | JStr string
  | JList "json list"
  | JDict "(string \<times> json) list"

text \<open>The exceptions that the script and its collaborators can raise.\<close>

datatype py_error =
    NotFound
  | ActionError string
  | KeyError string
  | TypeError
  | AttributeError
  | EOFError
  | SystemExit int

text \<open>Truth value of an object, as \<^verbatim>\<open>or\<close> and \<^verbatim>\<open>if\<close> test it.\<close>

fun truthy :: "json \<Rightarrow> bool" where
  "truthy JNull = False"
| "truthy (JBool b) = b"
| "truthy (JInt n) = (n \<noteq> 0)"
| "truthy (JStr s) = (s \<noteq> [])"
| "truthy (JList xs) = (xs \<noteq> [])"
| "truthy (JDict kvs) = (kvs \<noteq> [])"

text \<open>\<^verbatim>\<open>a or b\<close>\<close>

definition py_or :: "json \<Rightarrow> json \<Rightarrow> json" where
  "py_or a b = (if truthy a then a else b)"

text \<open>\<^verbatim>\<open>d.get(k, default)\<close>: only a dict has the method.\<close>

fun dict_get :: "json \<Rightarrow> string \<Rightarrow> json \<Rightarrow> py_error + json" where
  "dict_get (JDict kvs) k dflt = Inr (case map_of kvs k of Some v \<Rightarrow> v | None \<Rightarrow> dflt)"
| "dict_get _ k dflt = Inl AttributeError"

text \<open>\<^verbatim>\<open>d[k]\<close> for a string \<open>k\<close>: a missing key raises KeyError, a list or a string
  takes integer indices only, the other values are not subscriptable.\<close>

fun getitem :: "json \<Rightarrow> string \<Rightarrow> py_error + json" where
  "getitem (JDict kvs) k = (case map_of kvs k of Some v \<Rightarrow> Inr v | None \<Rightarrow> Inl (KeyError k))"
| "getitem _ k = Inl TypeError"

text \<open>\<^verbatim>\<open>d[k] = v\<close> on a dict: an existing key keeps its position.\<close>

definition setitem :: "(string \<times> json) list \<Rightarrow> string \<Rightarrow> json \<Rightarrow> json" where
  "setitem kvs k v = JDict (AList.update k v kvs)"

text \<open>\<^verbatim>\<open>del d[k]\<close> for a string \<open>k\<close>.\<close>

fun delitem :: "json \<Rightarrow> string \<Rightarrow> py_error + json" where
  "delitem (JDict kvs) k =
     (if k \<in> fst ` set kvs then Inr (JDict (AList.delete k kvs)) else Inl (KeyError k))"
| "delitem _ k = Inl TypeError"

text \<open>Substring test, \<^verbatim>\<open>p in s\<close> on two strings.\<close>

fun is_substring :: "string \<Rightarrow> string \<Rightarrow> bool" where
  "is_substring p [] = (p = [])"
| "is_substring p (c # cs) = (take (length p) (c # cs) = p \<or> is_substring p cs)"

text \<open>\<^verbatim>\<open>k in c\<close> for a string \<open>k\<close>: a key of a dict, an element of a list, a substring
  of a string; the other values are not iterable.\<close>

fun contains :: "string \<Rightarrow> json \<Rightarrow> py_error + bool" where
  "contains k (JDict kvs) = Inr (k \<in> fst ` set kvs)"
| "contains k (JList xs) = Inr (JStr k \<in> set xs)"
| "contains k (JStr s) = Inr (is_substring k s)"
| "contains k _ = Inl TypeError"

text \<open>The items a \<^verbatim>\<open>for\<close> loop visits: the elements of a list, the keys of a dict, the
  characters of a string.\<close>

fun iter :: "json \<Rightarrow> py_error + json list" where
  "iter (JList xs) = Inr xs"
| "iter (JDict kvs) = Inr (map (\<lambda>kv. JStr (fst kv)) kvs)"
| "iter (JStr s) = Inr (map (\<lambda>c. JStr [c]) s)"
| "iter _ = Inl TypeError"

section \<open>Snapshot normalizer (lines 116--120)\<close>

text \<open>
  \<^verbatim>\<open>
  if u'revision_timestamp' in (dataset.get(u'organization') or {}):
      del dataset[u'organization'][u'revision_timestamp']
  \<close>
  The nested deletion mutates the organization inside the dataset; the model writes the
  changed organization back under its key.
\<close>

definition strip_organization :: "json \<Rightarrow> py_error + json" where
  "strip_organization dataset =
     (case dict_get dataset ''organization'' JNull of
        Inl e \<Rightarrow> Inl e
      | Inr org \<Rightarrow>
          (case contains ''revision_timestamp'' (py_or org (JDict [])) of
             Inl e \<Rightarrow> Inl e
           | Inr False \<Rightarrow> Inr dataset
           | Inr True \<Rightarrow>
               (case getitem dataset ''organization'' of
                  Inl e \<Rightarrow> Inl e
                | Inr org' \<Rightarrow>
                    (case delitem org' ''revision_timestamp'' of
                       Inl e \<Rightarrow> Inl e
                     | Inr org'' \<Rightarrow>
                         (case dataset of
                            JDict kvs \<Rightarrow> Inr (setitem kvs ''organization'' org'')
                          | _ \<Rightarrow> Inl TypeError)))))"

text \<open>
  \<^verbatim>\<open>
  for res in dataset[u'resources']:
      if u'revision_timestamp' in res:
          del res[u'revision_timestamp']
  \<close>
  The loop body on the visited items, in order; the first exception ends the loop.
\<close>

fun strip_resources :: "json list \<Rightarrow> py_error + json list" where
  "strip_resources [] = Inr []"
| "strip_resources (res # rest) =
     (case contains ''revision_timestamp'' res of
        Inl e \<Rightarrow> Inl e
      | Inr b \<Rightarrow>
          (case (if b then delitem res ''revision_timestamp'' else Inr res) of
             Inl e \<Rightarrow> Inl e
           | Inr res' \<Rightarrow>
               (case strip_resources rest of
                  Inl e \<Rightarrow> Inl e
                | Inr rest' \<Rightarrow> Inr (res' # rest'))))"

text \<open>
  The deletions change the elements of a list in place. The keys of a dict and the
  characters of a string are immutable strings: a loop over them that does not raise
  leaves the dataset as it was.
\<close>

definition strip_dataset_resources :: "json \<Rightarrow> py_error + json" where
  "strip_dataset_resources dataset =
     (case getitem dataset ''resources'' of
        Inl e \<Rightarrow> Inl e
      | Inr rs \<Rightarrow>
          (case iter rs of
             Inl e \<Rightarrow> Inl e
           | Inr items \<Rightarrow>
               (case strip_resources items of
                  Inl e \<Rightarrow> Inl e
                | Inr items' \<Rightarrow>
                    (case (dataset, rs) of
                       (JDict kvs, JList _) \<Rightarrow> Inr (setitem kvs ''resources'' (JList items'))
                     | _ \<Rightarrow> Inr dataset))))"

definition normalize :: "json \<Rightarrow> py_error + json" where
  "normalize dataset =
     (case strip_organization dataset of
        Inl e \<Rightarrow> Inl e
      | Inr dataset' \<Rightarrow> strip_dataset_resources dataset')"

text \<open>Reading a normalized snapshot: whether a value is a dict with a given field, the
  organization of a dataset, and the entries of a list-valued field.\<close>

fun has_field :: "string \<Rightarrow> json \<Rightarrow> bool" where
  "has_field k (JDict kvs) = (k \<in> fst ` set kvs)"
| "has_field k _ = False"

fun field :: "json \<Rightarrow> string \<Rightarrow> json option" where
  "field (JDict kvs) k = map_of kvs k"
| "field _ k = None"

definition entries :: "json \<Rightarrow> string \<Rightarrow> json list" where
  "entries dataset k = (case field dataset k of Some (JList xs) \<Rightarrow> xs | _ \<Rightarrow> [])"

text \<open>A value without a key: a dict loses the entries of the key and keeps all its other
  entries in their order, any other value is left as it is. And a list whose elements are
  each without the key; a value that is not a list is left as it is.\<close>

fun without :: "string \<Rightarrow> json \<Rightarrow> json" where
  "without k (JDict kvs) = JDict (AList.delete k kvs)"
| "without k v = v"

fun without_in_each :: "string \<Rightarrow> json \<Rightarrow> json" where
  "without_in_each k (JList xs) = JList (map (without k) xs)"
| "without_in_each k v = v"

section \<open>The world the script runs in\<close>

text \<open>An entry of the list that \<^verbatim>\<open>package_activity_list\<close> returns (lines 96--102).\<close>

record activity =
  activity_type :: string
  activity_id :: string
  object_id :: string
  revision_id :: string
  timestamp :: string
  user_id :: string

text \<open>The context dict of \<^verbatim>\<open>get_context\<close> with the keys the script adds to it; a key
  that is not set is \<open>None\<close>. (The entries \<^verbatim>\<open>model\<close> and \<^verbatim>\<open>session\<close> are module
  references and are left out.)\<close>

record ckan_context =
  user :: string
  include_hidden_activity :: "bool option"
  for_view :: "bool option"
  ctx_revision_id :: "string option"

text \<open>The tables the script touches: the \<^verbatim>\<open>data\<close> column of the Activity rows by id,
  the names of the User rows by id, and the number of rows of \<^verbatim>\<open>activity_detail\<close>.\<close>

record database =
  activities :: "string \<rightharpoonup> json"
  users :: "string \<rightharpoonup> string"
  activity_detail :: nat

text \<open>What the script does to the outside, in the order it does it.\<close>

datatype effect =
    Printed string
  | GetSiteUser
  | PackageList ckan_context
  | PackageActivityList ckan_context string
  | PackageShow ckan_context string bool
  | UserGet string
  | ActivityGet string
  | DataAssigned string json
  | Committed
  | Prompted string
  | DeletedActivityDetail

text \<open>
  The state: the tables as the session sees them (with the changes not yet committed),
  the tables as committed, the ids of the Activity objects in \<^verbatim>\<open>model.Session.dirty\<close>,
  the module variable \<^verbatim>\<open>_context\<close>, the lines waiting on standard input, and the
  effects so far.
\<close>

record state =
  session :: database
  committed :: database
  dirty :: "string set"
  global_context :: "ckan_context option"
  stdin :: "string list"
  trace :: "effect list"

text \<open>
  The actions of \<^verbatim>\<open>ckan.logic\<close> are not part of the script: they are parameters.
  \<open>package_show env ctx id include_tracking\<close> is the action as it runs once line 72 has
  installed \<^verbatim>\<open>package_dictize_with_revisions\<close>, which happens before every call.
\<close>

record env =
  get_site_user :: "py_error + string"
  package_list :: "ckan_context \<Rightarrow> py_error + string list"
  package_activity_list :: "ckan_context \<Rightarrow> string \<Rightarrow> py_error + activity list"
  package_show :: "ckan_context \<Rightarrow> string \<Rightarrow> bool \<Rightarrow> py_error + json"

definition emit :: "effect \<Rightarrow> state \<Rightarrow> state" where
  "emit e s = s\<lparr>trace := trace s @ [e]\<rparr>"

definition py_print :: "string \<Rightarrow> state \<Rightarrow> state" where
  "py_print line s = emit (Printed line) s"

text \<open>\<^verbatim>\<open>model.Session.commit()\<close>: the pending changes become the committed tables and no
  object is dirty any more.\<close>

definition commit :: "state \<Rightarrow> state" where
  "commit s = emit Committed (s\<lparr>committed := session s, dirty := {}\<rparr>)"

text \<open>Decimal digits of a number, as \<^verbatim>\<open>format\<close> prints an int.\<close>

fun show_nat :: "nat \<Rightarrow> string" where
  "show_nat n =
     (if n < 10 then [''0123456789'' ! n]
      else show_nat (n div 10) @ [''0123456789'' ! (n mod 10)])"

declare show_nat.simps [simp del]

section \<open>get\_context (lines 41--50)\<close>

definition get_context :: "env \<Rightarrow> state \<Rightarrow> (py_error + ckan_context) \<times> state" where
  "get_context env s =
     (case global_context s of
        Some ctx \<Rightarrow> (Inr ctx, s)
      | None \<Rightarrow>
          (let s1 = emit GetSiteUser s in
           case get_site_user env of
             Inl e \<Rightarrow> (Inl e, s1)
           | Inr name \<Rightarrow>
               (let ctx = \<lparr>user = name, include_hidden_activity = None, for_view = None,
                           ctx_revision_id = None\<rparr>
                in (Inr ctx, s1\<lparr>global_context := Some ctx\<rparr>))))"

section \<open>migrate\_dataset (lines 62--141)\<close>

text \<open>Line 133, the test \<^verbatim>\<open>u'resources' in activity_obj.data.get(u'package', {})\<close>.\<close>

definition is_fully_migrated :: "json \<Rightarrow> py_error + bool" where
  "is_fully_migrated data =
     (case dict_get data ''package'' (JDict []) of
        Inl e \<Rightarrow> Inl e
      | Inr package \<Rightarrow> contains ''resources'' package)"

text \<open>Line 136, \<^verbatim>\<open>activity_obj.data = data\<close>: the attribute is set on the object in the
  session, which puts the object into \<^verbatim>\<open>Session.dirty\<close>.\<close>

definition assign_data :: "string \<Rightarrow> json \<Rightarrow> state \<Rightarrow> state" where
  "assign_data aid data s =
     emit (DataAssigned aid data)
       (s\<lparr>session := (session s)\<lparr>activities := (activities (session s))(aid \<mapsto> data)\<rparr>,
          dirty := insert aid (dirty s)\<rparr>)"

text \<open>Lines 122--123.\<close>

definition actor_name :: "state \<Rightarrow> activity \<Rightarrow> string" where
  "actor_name s activity =
     (case users (session s) (user_id activity) of
        Some name \<Rightarrow> name
      | None \<Rightarrow> user_id activity)"

text \<open>Lines 110--120: the dataset as it was at the revision in the context, normalized.\<close>

definition reconstruct_normalized :: "env \<Rightarrow> ckan_context \<Rightarrow> activity \<Rightarrow> py_error + json" where
  "reconstruct_normalized env ctx activity =
     (case package_show env ctx (object_id activity) False of
        Inl e \<Rightarrow> Inl e
      | Inr dataset \<Rightarrow> normalize dataset)"

text \<open>Lines 132--137: the Activity object is fetched by id (\<^verbatim>\<open>get\<close> returns \<^verbatim>\<open>None\<close> for
  an unknown id, and \<^verbatim>\<open>None.data\<close> raises), its current data is tested, and the new data
  is assigned unless the test holds.\<close>

definition attach :: "string \<Rightarrow> json \<Rightarrow> state \<Rightarrow> (py_error + unit) \<times> state" where
  "attach aid data s0 =
     (let s1 = emit (ActivityGet aid) s0 in
      case activities (session s1) aid of
        None \<Rightarrow> (Inl AttributeError, s1)
      | Some old \<Rightarrow>
          (case is_fully_migrated old of
             Inl e \<Rightarrow> (Inl e, s1)
           | Inr b \<Rightarrow>
               if b then (Inr (), py_print ''    Full dataset already recorded - no action'' s1)
               else (Inr (), assign_data aid data s1)))"

text \<open>The body of the loop of line 95, for the activity at index \<open>i\<close>. It returns the
  context as the body leaves it.\<close>

definition migrate_activity ::
  "env \<Rightarrow> ckan_context \<Rightarrow> nat \<Rightarrow> nat \<Rightarrow> activity \<Rightarrow> state \<Rightarrow> (py_error + ckan_context) \<times> state"
where
  "migrate_activity env ctx i num_activities activity s0 =
     (let s1 = py_print (''  activity '' @ show_nat (i + 1) @ ''/'' @ show_nat num_activities
                         @ '' '' @ timestamp activity) s0;
          ctx' = ctx\<lparr>ctx_revision_id := Some (revision_id activity)\<rparr>;
          s2 = emit (PackageShow ctx' (object_id activity) False)
                 (s1\<lparr>global_context := Some ctx'\<rparr>)
      in case reconstruct_normalized env ctx' activity of
           Inl e \<Rightarrow> (Inl e, s2)
         | Inr dataset \<Rightarrow>
             (let s3 = emit (UserGet (user_id activity)) s2;
                  data = JDict [(''package'', dataset),
                                (''actor'', JStr (actor_name s3 activity))]
              in case attach (activity_id activity) data s3 of
                   (Inl e, s4) \<Rightarrow> (Inl e, s4)
                 | (Inr u, s4) \<Rightarrow> (Inr ctx', s4)))"

fun migrate_activities ::
  "env \<Rightarrow> ckan_context \<Rightarrow> nat \<Rightarrow> nat \<Rightarrow> activity list \<Rightarrow> state \<Rightarrow> (py_error + ckan_context) \<times> state"
where
  "migrate_activities env ctx i num_activities [] s = (Inr ctx, s)"
| "migrate_activities env ctx i num_activities (activity # rest) s =
     (case migrate_activity env ctx i num_activities activity s of
        (Inl e, s') \<Rightarrow> (Inl e, s')
      | (Inr ctx', s') \<Rightarrow> migrate_activities env ctx' (i + 1) num_activities rest s')"

text \<open>Lines 138--140.\<close>

definition commit_gate :: "state \<Rightarrow> state" where
  "commit_gate s = (if dirty s \<noteq> {} then py_print ''  saved'' (commit s) else s)"

definition migrate_dataset :: "env \<Rightarrow> string \<Rightarrow> state \<Rightarrow> (py_error + unit) \<times> state" where
  "migrate_dataset env dataset_name s0 =
     (case get_context env s0 of
        (Inl e, s1) \<Rightarrow> (Inl e, s1)
      | (Inr ctx, s1) \<Rightarrow>
          (let ctx1 = ctx\<lparr>include_hidden_activity := Some True\<rparr>;
               s2 = emit (PackageActivityList ctx1 dataset_name)
                      (s1\<lparr>global_context := Some ctx1\<rparr>)
           in case package_activity_list env ctx1 dataset_name of
                Inl e \<Rightarrow> (Inl e, s2)
              | Inr package_activity_stream \<Rightarrow>
                  (let num_activities = length package_activity_stream;
                       s3 = (if num_activities = 0 then py_print ''  No activities'' s2 else s2);
                       ctx2 = ctx1\<lparr>for_view := Some False\<rparr>;
                       s4 = s3\<lparr>global_context := Some ctx2\<rparr>
                   in case migrate_activities env ctx2 0 num_activities
                             package_activity_stream s4 of
                        (Inl e, s5) \<Rightarrow> (Inl e, s5)
                      | (Inr ctx3, s5) \<Rightarrow>
                          (Inr (),
                           py_print (''All '' @ show_nat (length package_activity_stream)
                                     @ '' datasets are migrated'')
                             (commit_gate s5)))))"

section \<open>migrate\_all\_datasets (lines 53--59)\<close>

fun migrate_names :: "env \<Rightarrow> nat \<Rightarrow> nat \<Rightarrow> string list \<Rightarrow> state \<Rightarrow> (py_error + unit) \<times> state" where
  "migrate_names env i num_datasets [] s = (Inr (), s)"
| "migrate_names env i num_datasets (dataset_name # rest) s =
     (case migrate_dataset env dataset_name
             (py_print (show_nat (i + 1) @ ''/'' @ show_nat num_datasets @ '' '' @ dataset_name) s) of
        (Inl e, s') \<Rightarrow> (Inl e, s')
      | (Inr u, s') \<Rightarrow> migrate_names env (i + 1) num_datasets rest s')"

definition migrate_all_datasets :: "env \<Rightarrow> state \<Rightarrow> (py_error + unit) \<times> state" where
  "migrate_all_datasets env s0 =
     (case get_context env s0 of
        (Inl e, s1) \<Rightarrow> (Inl e, s1)
      | (Inr ctx, s1) \<Rightarrow>
          (let s2 = emit (PackageList ctx) s1 in
           case package_list env ctx of
             Inl e \<Rightarrow> (Inl e, s2)
           | Inr dataset_names \<Rightarrow>
               migrate_names env 0 (length dataset_names) dataset_names s2))"

section \<open>wipe\_activity\_detail (lines 144--165)\<close>

text \<open>\<^verbatim>\<open>str.lower\<close> on the ASCII letters.\<close>

definition lower_char :: "char \<Rightarrow> char" where
  "lower_char c =
     (case map_of (zip ''ABCDEFGHIJKLMNOPQRSTUVWXYZ'' ''abcdefghijklmnopqrstuvwxyz'') c of
        Some l \<Rightarrow> l
      | None \<Rightarrow> c)"

definition lower :: "string \<Rightarrow> string" where
  "lower s = map lower_char s"

text \<open>
  \<^verbatim>\<open>input(prompt)\<close> writes the prompt and takes the next line of standard input; at the
  end of the input it raises EOFError. \<^verbatim>\<open>sys.exit(0)\<close> raises \<open>SystemExit 0\<close>, which
  ends the process with status 0.
\<close>

definition wipe_explanation :: string where
  "wipe_explanation =
     CHR 0x0A # ''Now the migration is done, the history of datasets is now stored'' @
     CHR 0x0A # ''in the activity table. As a result, the contents of the'' @
     CHR 0x0A # ''activity_detail table will no longer be used after CKAN 2.8.x, and'' @
     CHR 0x0A # ''you can delete it to save space (this is safely done before or'' @
     CHR 0x0A # ''after the CKAN upgrade).''"

definition wipe_activity_detail :: "state \<Rightarrow> (py_error + unit) \<times> state" where
  "wipe_activity_detail s0 =
     (let num_activity_detail_rows = activity_detail (session s0) in
      if num_activity_detail_rows = 0
      then (Inr (), py_print (CHR 0x0A # ''activity_detail table is aleady emptied'') s0)
      else
        (let s1 = py_print wipe_explanation s0;
             s2 = emit (Prompted ''Delete activity_detail table content? (y/n):'') s1
         in case stdin s2 of
              [] \<Rightarrow> (Inl EOFError, s2)
            | response # rest \<Rightarrow>
                (let s3 = s2\<lparr>stdin := rest\<rparr> in
                 if take 1 (lower response) \<noteq> ''y''
                 then (Inl (SystemExit 0), s3)
                 else
                   (let s4 = emit DeletedActivityDetail
                               (s3\<lparr>session := (session s3)\<lparr>activity_detail := 0\<rparr>\<rparr>);
                        s5 = commit s4
                    in (Inr (), py_print ''activity_detail deleted'' s5)))))"

text \<open>A process that starts on a database: nothing is pending and \<^verbatim>\<open>_context\<close> is unset.\<close>

definition fresh_process :: "database \<Rightarrow> string list \<Rightarrow> state" where
  "fresh_process db input =
     \<lparr>session = db, committed = db, dirty = {}, global_context = None, stdin = input,
      trace = []\<rparr>"

section \<open>Observations on the effects\<close>

fun is_commit :: "effect \<Rightarrow> bool" where
  "is_commit Committed = True"
| "is_commit _ = False"

fun is_assignment :: "effect \<Rightarrow> bool" where
  "is_assignment (DataAssigned aid data) = True"
| "is_assignment _ = False"

fun is_reconstruction :: "effect \<Rightarrow> bool" where
  "is_reconstruction (PackageShow ctx pid tracking) = True"
| "is_reconstruction _ = False"

fun is_prompt :: "effect \<Rightarrow> bool" where
  "is_prompt (Prompted p) = True"
| "is_prompt _ = False"

definition occurrences :: "(effect \<Rightarrow> bool) \<Rightarrow> state \<Rightarrow> nat" where
  "occurrences P s = length (filter P (trace s))"

text \<open>The number of \<^verbatim>\<open>Session.commit()\<close> calls, of assignments to \<^verbatim>\<open>activity_obj.data\<close>,
  of \<^verbatim>\<open>package_show\<close> calls and of prompts so far.\<close>

definition commits :: "state \<Rightarrow> nat" where
  "commits s = occurrences is_commit s"

definition mutations :: "state \<Rightarrow> nat" where
  "mutations s = occurrences is_assignment s"

definition reconstructions :: "state \<Rightarrow> nat" where
  "reconstructions s = occurrences is_reconstruction s"

definition prompts :: "state \<Rightarrow> nat" where
  "prompts s = occurrences is_prompt s"

text \<open>Whether the Activity row of an id passes the test of line 133 in the session.\<close>

definition fully_migrated :: "state \<Rightarrow> string \<Rightarrow> bool" where
  "fully_migrated s aid =
     (case activities (session s) aid of
        Some old \<Rightarrow> is_fully_migrated old = Inr True
      | None \<Rightarrow> False)"

text \<open>Whether the test of line 133 can be made on the Activity row of an id: the row
  exists and the test on its data raises nothing.\<close>

definition readable :: "state \<Rightarrow> string \<Rightarrow> bool" where
  "readable s aid =
     (case activities (session s) aid of
        Some old \<Rightarrow> (case is_fully_migrated old of Inr b \<Rightarrow> True | Inl e \<Rightarrow> False)
      | None \<Rightarrow> False)"

text \<open>A session in which nothing is pending unless some object is dirty.\<close>

definition settled :: "state \<Rightarrow> bool" where
  "settled s = (dirty s = {} \<longrightarrow> session s = committed s)"

text \<open>The state in which the loop of line 95 starts (lines 86--93), given the context
  and the state that \<^verbatim>\<open>get_context\<close> returned and the list of activities.\<close>

definition loop_entry :: "ckan_context \<Rightarrow> string \<Rightarrow> activity list \<Rightarrow> state \<Rightarrow> state" where
  "loop_entry ctx name acts s1 =
     (let ctx1 = ctx\<lparr>include_hidden_activity := Some True\<rparr>;
          s2 = emit (PackageActivityList ctx1 name) (s1\<lparr>global_context := Some ctx1\<rparr>);
          s3 = (if length acts = 0 then py_print ''  No activities'' s2 else s2)
      in s3\<lparr>global_context := Some (ctx1\<lparr>for_view := Some False\<rparr>)\<rparr>)"

section \<open>Concrete inputs\<close>

text \<open>A reconstructed dataset that carries \<^verbatim>\<open>revision_timestamp\<close> on its organization, on
  a resource, on a tag and on an extra, and what the normalizer makes of it.\<close>

definition stamped_dataset :: json where
  "stamped_dataset = JDict
     [(''name'', JStr ''ds''),
      (''organization'', JDict [(''id'', JStr ''o1''), (''revision_timestamp'', JStr ''2018-04-20'')]),
      (''resources'', JList [JDict [(''url'', JStr ''u''), (''revision_timestamp'', JStr ''2018-04-20'')]]),
      (''tags'', JList [JDict [(''name'', JStr ''t''), (''revision_timestamp'', JStr ''2018-04-20'')]]),
      (''extras'', JList [JDict [(''key'', JStr ''k''), (''revision_timestamp'', JStr ''2018-04-20'')]])]"

definition stamped_snapshot :: json where
  "stamped_snapshot = JDict
     [(''name'', JStr ''ds''),
      (''organization'', JDict [(''id'', JStr ''o1'')]),
      (''resources'', JList [JDict [(''url'', JStr ''u'')]]),
      (''tags'', JList [JDict [(''name'', JStr ''t''), (''revision_timestamp'', JStr ''2018-04-20'')]]),
      (''extras'', JList [JDict [(''key'', JStr ''k''), (''revision_timestamp'', JStr ''2018-04-20'')]])]"

text \<open>A dataset of no organization.\<close>

definition orphan_fields :: "(string \<times> json) list" where
  "orphan_fields =
     [(''name'', JStr ''ds''),
      (''organization'', JNull),
      (''resources'', JList [JDict [(''url'', JStr ''u''), (''revision_timestamp'', JStr ''2018-04-20'')]])]"

text \<open>A database with three rows of \<^verbatim>\<open>activity_detail\<close>, and one with none.\<close>

definition detail_db :: "nat \<Rightarrow> database" where
  "detail_db n = \<lparr>activities = Map.empty, users = Map.empty, activity_detail = n\<rparr>"

text \<open>
  A catalogue of one dataset \<open>ds\<close> whose activities are the given list. Without
  \<^verbatim>\<open>include_hidden_activity\<close> the listing leaves out the activities of the site user. The
  dataset at a revision carries a \<^verbatim>\<open>revision_timestamp\<close> on its resource; the revision
  \<open>gone\<close> cannot be reconstructed.
\<close>

definition site_context :: ckan_context where
  "site_context = \<lparr>user = ''site'', include_hidden_activity = None, for_view = None,
                    ctx_revision_id = None\<rparr>"

definition event :: "string \<Rightarrow> string \<Rightarrow> string \<Rightarrow> activity" where
  "event aid marker uid =
     \<lparr>activity_type = ''changed package'', activity_id = aid, object_id = ''p1'',
      revision_id = marker, timestamp = ''2018-04-20T16:11:45'', user_id = uid\<rparr>"

definition dataset_at :: "string \<Rightarrow> json" where
  "dataset_at marker = JDict
     [(''name'', JStr ''ds''), (''revision_id'', JStr marker), (''organization'', JNull),
      (''resources'', JList [JDict [(''url'', JStr ''u''), (''revision_timestamp'', JStr ''2018-04-20'')]])]"

definition snapshot_at :: "string \<Rightarrow> json" where
  "snapshot_at marker = JDict
     [(''name'', JStr ''ds''), (''revision_id'', JStr marker), (''organization'', JNull),
      (''resources'', JList [JDict [(''url'', JStr ''u'')]])]"

definition catalogue :: "activity list \<Rightarrow> env" where
  "catalogue acts =
     \<lparr>get_site_user = Inr ''site'',
      package_list = (\<lambda>ctx. Inr [''ds'']),
      package_activity_list = (\<lambda>ctx name.
         if name = ''ds''
         then Inr (if include_hidden_activity ctx = Some True then acts
                   else filter (\<lambda>a. user_id a \<noteq> ''site'') acts)
         else Inl NotFound),
      package_show = (\<lambda>ctx pid tracking.
         case ctx_revision_id ctx of
           Some marker \<Rightarrow> if marker = ''gone'' then Inl NotFound else Inr (dataset_at marker)
         | None \<Rightarrow> Inr (dataset_at ''current''))\<rparr>"

definition legacy_payload :: json where
  "legacy_payload = JDict [(''package'', JDict [(''name'', JStr ''ds'')]), (''actor'', JStr ''alice'')]"

definition migrated_payload :: json where
  "migrated_payload =
     JDict [(''package'', JDict [(''name'', JStr ''ds''),
                                 (''resources'', JList [JDict [(''url'', JStr ''u'')]])]),
            (''actor'', JStr ''alice'')]"

definition empty_resources_payload :: json where
  "empty_resources_payload =
     JDict [(''package'', JDict [(''name'', JStr ''ds''), (''resources'', JList [])]),
            (''actor'', JStr ''alice'')]"

definition five_events :: "activity list" where
  "five_events = [event ''a1'' ''r1'' ''u1'', event ''a2'' ''r2'' ''u1'', event ''a3'' ''r3'' ''u1'',
                  event ''a4'' ''r4'' ''u1'', event ''a5'' ''r5'' ''u1'']"

definition five_db :: database where
  "five_db = \<lparr>activities = [''a1'' \<mapsto> legacy_payload, ''a2'' \<mapsto> migrated_payload,
                             ''a3'' \<mapsto> legacy_payload, ''a4'' \<mapsto> migrated_payload,
                             ''a5'' \<mapsto> legacy_payload],
              users = [''u1'' \<mapsto> ''alice''], activity_detail = 0\<rparr>"



definition one_db :: "json \<Rightarrow> database" where
  "one_db payload = \<lparr>activities = [''a1'' \<mapsto> payload], users = [''u1'' \<mapsto> ''alice''],
                     activity_detail = 0\<rparr>"

section \<open>The normalizer\<close>

lemma delitem_no_field:
  "delitem v k = Inr v' \<Longrightarrow> \<not> has_field k v'"
  by (cases v) (auto simp: AList.delete_notin_dom split: if_splits)

lemma strip_resources_no_field:
  "strip_resources xs = Inr ys \<Longrightarrow> r \<in> set ys \<Longrightarrow> \<not> has_field ''revision_timestamp'' r"
proof (induction xs arbitrary: ys)
  case Nil
  then show ?case by simp
next
  case (Cons x xs)
  from Cons.prems(1) obtain b x' ys' where
    b: "contains ''revision_timestamp'' x = Inr b"
    and x': "(if b then delitem x ''revision_timestamp'' else Inr x) = Inr x'"
    and ys': "strip_resources xs = Inr ys'"
    and ys: "ys = x' # ys'"
    by (auto split: sum.splits)
  have "\<not> has_field ''revision_timestamp'' x'"
  proof (cases b)
    case True
    with x' show ?thesis by (simp add: delitem_no_field)
  next
    case False
    with x' have "x' = x" by simp
    with b False show ?thesis by (cases x) auto
  qed
  with Cons.IH [OF ys'] Cons.prems(2) ys show ?case by auto
qed

lemma strip_organization_absent:
  "map_of kvs ''organization'' = None \<Longrightarrow> strip_organization (JDict kvs) = Inr (JDict kvs)"
  by (simp add: strip_organization_def py_or_def)

lemma strip_organization_falsy:
  "map_of kvs ''organization'' = Some org \<Longrightarrow> \<not> truthy org \<Longrightarrow>
   strip_organization (JDict kvs) = Inr (JDict kvs)"
  by (simp add: strip_organization_def py_or_def)

lemma strip_organization_truthy:
  "map_of kvs ''organization'' = Some org \<Longrightarrow> truthy org \<Longrightarrow>
   strip_organization (JDict kvs) =
     (case contains ''revision_timestamp'' org of
        Inl e \<Rightarrow> Inl e
      | Inr b \<Rightarrow>
          if b then (case delitem org ''revision_timestamp'' of
                       Inl e \<Rightarrow> Inl e
                     | Inr org' \<Rightarrow> Inr (setitem kvs ''organization'' org'))
          else Inr (JDict kvs))"
  by (simp add: strip_organization_def py_or_def split: sum.splits bool.splits)

lemma strip_organization_cases:
  assumes "strip_organization d = Inr d'"
  obtains kvs org org' where "d = JDict kvs" "map_of kvs ''organization'' = Some org"
      "delitem org ''revision_timestamp'' = Inr org'" "d' = setitem kvs ''organization'' org'"
  | kvs org where "d = JDict kvs" "map_of kvs ''organization'' = Some org"
      "\<not> has_field ''revision_timestamp'' org" "d' = d"
  | kvs where "d = JDict kvs" "map_of kvs ''organization'' = None" "d' = d"
proof (cases d)
  case (JDict kvs)
  show ?thesis
  proof (cases "map_of kvs ''organization''")
    case None
    have "d' = d"
      using assms strip_organization_absent [OF None] unfolding JDict by simp
    with JDict None show ?thesis by (rule that(3))
  next
    case (Some org)
    show ?thesis
    proof (cases "truthy org")
      case False
      then have nf: "\<not> has_field ''revision_timestamp'' org"
        by (cases org) auto
      have "d' = d"
        using assms strip_organization_falsy [OF Some False] unfolding JDict by simp
      with JDict Some nf show ?thesis by (rule that(2))
    next
      case True
      note eq = strip_organization_truthy [OF Some True]
      show ?thesis
      proof (cases "contains ''revision_timestamp'' org")
        case (Inl e)
        with assms eq show ?thesis unfolding JDict by simp
      next
        case (Inr b)
        show ?thesis
        proof (cases b)
          case False
          with Inr have nf: "\<not> has_field ''revision_timestamp'' org"
            by (cases org) auto
          have "d' = d"
            using assms eq Inr False unfolding JDict by simp
          with JDict Some nf show ?thesis by (rule that(2))
        next
          case True
          show ?thesis
          proof (cases "delitem org ''revision_timestamp''")
            case (Inl e)
            with assms eq \<open>contains ''revision_timestamp'' org = Inr b\<close> True
            show ?thesis unfolding JDict by simp
          next
            case del: (Inr org')
            have "d' = setitem kvs ''organization'' org'"
              using assms eq \<open>contains ''revision_timestamp'' org = Inr b\<close> True del
              unfolding JDict by simp
            with JDict Some del show ?thesis by (rule that(1))
          qed
        qed
      qed
    qed
  qed
qed (use assms in \<open>simp_all add: strip_organization_def\<close>)

lemma strip_organization_result:
  assumes "strip_organization d = Inr d'"
  shows "(\<forall>org. field d' ''organization'' = Some org \<longrightarrow> \<not> has_field ''revision_timestamp'' org)
       \<and> (\<forall>k. k \<noteq> ''organization'' \<longrightarrow> field d' k = field d k)"
  using assms
proof (cases rule: strip_organization_cases)
  case (1 kvs org org')
  from 1(3) have "\<not> has_field ''revision_timestamp'' org'" by (rule delitem_no_field)
  with 1 show ?thesis by (simp add: setitem_def update_conv')
next
  case (2 kvs org)
  then show ?thesis by simp
next
  case (3 kvs)
  then show ?thesis by simp
qed

lemma strip_dataset_resources_cases:
  assumes "strip_dataset_resources d = Inr d'"
  obtains kvs xs xs' where "d = JDict kvs" "map_of kvs ''resources'' = Some (JList xs)"
      "strip_resources xs = Inr xs'" "d' = setitem kvs ''resources'' (JList xs')"
  | kvs rs where "d = JDict kvs" "map_of kvs ''resources'' = Some rs" "\<forall>xs. rs \<noteq> JList xs" "d' = d"
proof (cases d)
  case (JDict kvs)
  show ?thesis
  proof (cases "map_of kvs ''resources''")
    case None
    with assms JDict show ?thesis by (simp add: strip_dataset_resources_def)
  next
    case (Some rs)
    show ?thesis
    proof (cases rs)
      case (JList xs)
      with assms JDict Some that(1) show ?thesis
        by (simp add: strip_dataset_resources_def split: sum.splits)
    next
      case JNull
      with assms JDict Some show ?thesis by (simp add: strip_dataset_resources_def)
    next
      case (JBool b)
      with assms JDict Some show ?thesis by (simp add: strip_dataset_resources_def)
    next
      case (JInt n)
      with assms JDict Some show ?thesis by (simp add: strip_dataset_resources_def)
    next
      case (JStr str)
      with assms JDict Some that(2) show ?thesis
        by (simp add: strip_dataset_resources_def split: sum.splits)
    next
      case (JDict f)
      with assms \<open>d = JDict kvs\<close> Some that(2) show ?thesis
        by (simp add: strip_dataset_resources_def split: sum.splits)
    qed
  qed
qed (use assms in \<open>simp_all add: strip_dataset_resources_def\<close>)

lemma strip_dataset_resources_result:
  assumes "strip_dataset_resources d = Inr d'"
  shows "(\<forall>r \<in> set (entries d' ''resources''). \<not> has_field ''revision_timestamp'' r)
       \<and> (\<forall>k. k \<noteq> ''resources'' \<longrightarrow> field d' k = field d k)"
  using assms
proof (cases rule: strip_dataset_resources_cases)
  case (1 kvs xs xs')
  have "entries d' ''resources'' = xs'"
    using 1 by (simp add: entries_def setitem_def update_conv')
  moreover have "\<forall>k. k \<noteq> ''resources'' \<longrightarrow> field d' k = field d k"
    using 1 by (simp add: setitem_def update_conv')
  ultimately show ?thesis
    using strip_resources_no_field [OF 1(3)] by simp
next
  case (2 kvs rs)
  then have "entries d' ''resources'' = []"
    by (cases rs) (simp_all add: entries_def)
  with 2 show ?thesis by simp
qed

lemma delitem_without: "delitem v k = Inr v' \<Longrightarrow> v' = without k v"
  by (cases v) (auto split: if_splits)

lemma without_absent: "\<not> has_field k v \<Longrightarrow> without k v = v"
  by (cases v) auto

lemma contains_False_has_field: "contains k v = Inr False \<Longrightarrow> \<not> has_field k v"
  by (cases v) auto

lemma strip_resources_map:
  "strip_resources xs = Inr ys \<Longrightarrow> ys = map (without ''revision_timestamp'') xs"
proof (induction xs arbitrary: ys)
  case Nil
  then show ?case by simp
next
  case (Cons x xs)
  from Cons.prems obtain b x' ys' where
    b: "contains ''revision_timestamp'' x = Inr b"
    and x': "(if b then delitem x ''revision_timestamp'' else Inr x) = Inr x'"
    and ys': "strip_resources xs = Inr ys'"
    and ys: "ys = x' # ys'"
    by (auto split: sum.splits)
  have "x' = without ''revision_timestamp'' x"
  proof (cases b)
    case True
    with x' show ?thesis by (simp add: delitem_without)
  next
    case False
    with x' have "x' = x" by simp
    moreover from b False have "\<not> has_field ''revision_timestamp'' x"
      by (simp add: contains_False_has_field)
    ultimately show ?thesis by (simp add: without_absent)
  qed
  with Cons.IH [OF ys'] ys show ?case by simp
qed

lemma update_map_entry:
  "map_of al k = Some v \<Longrightarrow> AList.update k (f v) al = AList.map_entry k f al"
  by (induction al) (auto split: if_splits)

lemma map_entry_fixed:
  "map_of al k = Some v \<Longrightarrow> f v = v \<Longrightarrow> AList.map_entry k f al = al"
  by (induction al) (auto split: if_splits)

lemma map_entry_absent:
  "map_of al k = None \<Longrightarrow> AList.map_entry k f al = al"
  by (induction al) (auto split: if_splits)

lemma strip_organization_exact:
  assumes "strip_organization d = Inr d'"
  shows "\<exists>kvs. d = JDict kvs
    \<and> d' = JDict (AList.map_entry ''organization'' (without ''revision_timestamp'') kvs)"
  using assms
proof (cases rule: strip_organization_cases)
  case (1 kvs org org')
  from 1(3) have org': "org' = without ''revision_timestamp'' org" by (rule delitem_without)
  have "AList.update ''organization'' (without ''revision_timestamp'' org) kvs
      = AList.map_entry ''organization'' (without ''revision_timestamp'') kvs"
    using 1(2) by (rule update_map_entry)
  with 1(1,4) org' show ?thesis by (simp add: setitem_def)
next
  case (2 kvs org)
  then show ?thesis by (simp add: map_entry_fixed without_absent)
next
  case (3 kvs)
  then show ?thesis by (simp add: map_entry_absent)
qed

lemma strip_dataset_resources_exact:
  assumes "strip_dataset_resources d = Inr d'"
  shows "\<exists>kvs. d = JDict kvs
    \<and> d' = JDict (AList.map_entry ''resources'' (without_in_each ''revision_timestamp'') kvs)"
  using assms
proof (cases rule: strip_dataset_resources_cases)
  case (1 kvs xs xs')
  from 1(3) have xs': "xs' = map (without ''revision_timestamp'') xs"
    by (rule strip_resources_map)
  have "AList.update ''resources'' (without_in_each ''revision_timestamp'' (JList xs)) kvs
      = AList.map_entry ''resources'' (without_in_each ''revision_timestamp'') kvs"
    using 1(2) by (rule update_map_entry)
  with 1(1,4) xs' show ?thesis by (simp add: setitem_def)
next
  case (2 kvs rs)
  from 2(3) have "without_in_each ''revision_timestamp'' rs = rs" by (cases rs) auto
  with 2 show ?thesis by (simp add: map_entry_fixed)
qed

text \<open>
  C3 (as amended). Whenever normalization of a reconstructed dataset returns, the snapshot
  is the dataset with these changes and no other: the value under \<^verbatim>\<open>organization\<close> is the
  reconstructed one without its \<^verbatim>\<open>revision_timestamp\<close>, and each element of the list under
  \<^verbatim>\<open>resources\<close> is the reconstructed one without its \<^verbatim>\<open>revision_timestamp\<close>
  (\<open>AList.map_entry k f\<close> applies \<open>f\<close> to the value of the key \<open>k\<close> and leaves the keys,
  their order and the other values as they are). So the snapshot has no
  \<^verbatim>\<open>revision_timestamp\<close> field on its organization and on none of its resources, and every
  other field of the dataset, its tags and extras among them, is the reconstructed one,
  unchanged.
\<close>

theorem normalize_strips_organization_and_resources:
  assumes "normalize dataset = Inr snapshot"
  shows "(\<exists>kvs. dataset = JDict kvs
            \<and> snapshot = JDict (AList.map_entry ''resources'' (without_in_each ''revision_timestamp'')
                                  (AList.map_entry ''organization'' (without ''revision_timestamp'') kvs)))
       \<and> field snapshot ''organization''
           = map_option (without ''revision_timestamp'') (field dataset ''organization'')
       \<and> field snapshot ''resources''
           = map_option (without_in_each ''revision_timestamp'') (field dataset ''resources'')
       \<and> entries snapshot ''resources''
           = map (without ''revision_timestamp'') (entries dataset ''resources'')
       \<and> (\<forall>k. k \<noteq> ''organization'' \<and> k \<noteq> ''resources'' \<longrightarrow> field snapshot k = field dataset k)
       \<and> (\<forall>org. field snapshot ''organization'' = Some org \<longrightarrow> \<not> has_field ''revision_timestamp'' org)
       \<and> (\<forall>res \<in> set (entries snapshot ''resources''). \<not> has_field ''revision_timestamp'' res)"
proof -
  from assms obtain d1 where
    d1: "strip_organization dataset = Inr d1" and d2: "strip_dataset_resources d1 = Inr snapshot"
    by (auto simp: normalize_def split: sum.splits)
  from strip_organization_exact [OF d1] obtain kvs where
    ds: "dataset = JDict kvs"
    and d1': "d1 = JDict (AList.map_entry ''organization'' (without ''revision_timestamp'') kvs)"
    by blast
  from strip_dataset_resources_exact [OF d2] d1' have
    sn: "snapshot = JDict (AList.map_entry ''resources'' (without_in_each ''revision_timestamp'')
                            (AList.map_entry ''organization'' (without ''revision_timestamp'') kvs))"
    by simp
  have org: "field snapshot ''organization''
           = map_option (without ''revision_timestamp'') (field dataset ''organization'')"
    unfolding sn ds by (simp add: map_of_map_entry split: option.splits)
  have res: "field snapshot ''resources''
           = map_option (without_in_each ''revision_timestamp'') (field dataset ''resources'')"
    unfolding sn ds by (simp add: map_of_map_entry split: option.splits)
  have ent: "entries snapshot ''resources''
           = map (without ''revision_timestamp'') (entries dataset ''resources'')"
  proof (cases "field dataset ''resources''")
    case None
    with res show ?thesis by (simp add: entries_def)
  next
    case (Some rs)
    with res show ?thesis by (cases rs) (simp_all add: entries_def)
  qed
  have frame: "\<forall>k. k \<noteq> ''organization'' \<and> k \<noteq> ''resources'' \<longrightarrow> field snapshot k = field dataset k"
    unfolding sn ds by (simp add: map_of_map_entry)
  from strip_organization_result [OF d1] strip_dataset_resources_result [OF d2]
  have nofield: "(\<forall>org. field snapshot ''organization'' = Some org \<longrightarrow> \<not> has_field ''revision_timestamp'' org)
       \<and> (\<forall>res \<in> set (entries snapshot ''resources''). \<not> has_field ''revision_timestamp'' res)"
    by simp
  from ds sn org res ent frame nofield show ?thesis by blast
qed

text \<open>C3 (as amended) on the stamped dataset.\<close>

theorem normalize_strips_organization_and_resources_witness:
  "normalize stamped_dataset = Inr stamped_snapshot
   \<and> field stamped_dataset ''organization''
       = Some (JDict [(''id'', JStr ''o1''), (''revision_timestamp'', JStr ''2018-04-20'')])
   \<and> field stamped_snapshot ''organization'' = Some (JDict [(''id'', JStr ''o1'')])
   \<and> \<not> has_field ''revision_timestamp'' (JDict [(''id'', JStr ''o1'')])
   \<and> entries stamped_dataset ''resources''
       = [JDict [(''url'', JStr ''u''), (''revision_timestamp'', JStr ''2018-04-20'')]]
   \<and> entries stamped_snapshot ''resources'' = [JDict [(''url'', JStr ''u'')]]
   \<and> \<not> has_field ''revision_timestamp'' (JDict [(''url'', JStr ''u'')])
   \<and> field stamped_snapshot ''name'' = field stamped_dataset ''name''
   \<and> field stamped_snapshot ''tags'' = field stamped_dataset ''tags''
   \<and> field stamped_snapshot ''extras'' = field stamped_dataset ''extras''"
proof -
  have n: "normalize stamped_dataset = Inr stamped_snapshot"
    by (simp add: stamped_dataset_def stamped_snapshot_def normalize_def strip_organization_def
        strip_dataset_resources_def py_or_def setitem_def AList.delete_eq)
  show ?thesis
    using n normalize_strips_organization_and_resources [OF n]
    by (simp add: stamped_dataset_def stamped_snapshot_def entries_def)
qed

text \<open>
  C3 (as stated) fails: the normalizer leaves the \<^verbatim>\<open>revision_timestamp\<close> of a tag and of
  an extra in the snapshot.
\<close>

theorem normalize_keeps_tag_and_extra_timestamps:
  "normalize stamped_dataset = Inr stamped_snapshot
   \<and> entries stamped_snapshot ''tags''
       = [JDict [(''name'', JStr ''t''), (''revision_timestamp'', JStr ''2018-04-20'')]]
   \<and> has_field ''revision_timestamp''
        (JDict [(''name'', JStr ''t''), (''revision_timestamp'', JStr ''2018-04-20'')])
   \<and> entries stamped_snapshot ''extras''
       = [JDict [(''key'', JStr ''k''), (''revision_timestamp'', JStr ''2018-04-20'')]]
   \<and> has_field ''revision_timestamp''
        (JDict [(''key'', JStr ''k''), (''revision_timestamp'', JStr ''2018-04-20'')])"
  by (simp add: stamped_dataset_def stamped_snapshot_def normalize_def strip_organization_def
      strip_dataset_resources_def py_or_def setitem_def AList.delete_eq entries_def)

lemma strip_resources_dicts:
  "\<forall>r \<in> set rs. \<exists>f. r = JDict f \<Longrightarrow> \<exists>rs'. strip_resources rs = Inr rs'"
  by (induction rs) auto

text \<open>
  C10. On a dataset whose \<^verbatim>\<open>organization\<close> is absent or \<^verbatim>\<open>None\<close> the organization step
  of the normalizer raises nothing and returns the dataset as it is, so that normalization
  is the resources step alone; with a list of resource dicts it returns a snapshot.
\<close>

theorem normalize_without_organization:
  assumes "map_of kvs ''organization'' = None \<or> map_of kvs ''organization'' = Some JNull"
  shows "strip_organization (JDict kvs) = Inr (JDict kvs)
       \<and> normalize (JDict kvs) = strip_dataset_resources (JDict kvs)
       \<and> (\<forall>rs. map_of kvs ''resources'' = Some (JList rs) \<and> (\<forall>r \<in> set rs. \<exists>f. r = JDict f)
            \<longrightarrow> (\<exists>snapshot. normalize (JDict kvs) = Inr snapshot))"
proof -
  have org: "strip_organization (JDict kvs) = Inr (JDict kvs)"
    using assms strip_organization_absent [of kvs] strip_organization_falsy [of kvs JNull]
    by auto
  then have norm: "normalize (JDict kvs) = strip_dataset_resources (JDict kvs)"
    by (simp add: normalize_def)
  have "\<exists>snapshot. normalize (JDict kvs) = Inr snapshot"
    if rs: "map_of kvs ''resources'' = Some (JList rs)" and d: "\<forall>r \<in> set rs. \<exists>f. r = JDict f"
    for rs
  proof -
    from strip_resources_dicts [OF d] obtain rs' where "strip_resources rs = Inr rs'" ..
    with rs show ?thesis
      unfolding norm by (simp add: strip_dataset_resources_def)
  qed
  with org norm show ?thesis by blast
qed

text \<open>C10 on a dataset whose organization is \<^verbatim>\<open>None\<close>.\<close>

theorem normalize_without_organization_witness:
  "map_of orphan_fields ''organization'' = Some JNull
   \<and> strip_organization (JDict orphan_fields) = Inr (JDict orphan_fields)
   \<and> normalize (JDict orphan_fields)
       = Inr (JDict [(''name'', JStr ''ds''), (''organization'', JNull),
                     (''resources'', JList [JDict [(''url'', JStr ''u'')]])])"
proof -
  have h: "map_of orphan_fields ''organization'' = None
         \<or> map_of orphan_fields ''organization'' = Some JNull"
    by (simp add: orphan_fields_def)
  show ?thesis
    using normalize_without_organization [OF h]
    by (simp add: orphan_fields_def strip_dataset_resources_def setitem_def AList.delete_eq)
qed

section \<open>The cleanup step\<close>

lemma lower_char_y: "lower_char c = CHR ''y'' \<longleftrightarrow> c = CHR ''y'' \<or> c = CHR ''Y''"
  by (auto simp: lower_char_def split: if_splits)

lemma affirmative_iff:
  "take 1 (lower r) = ''y'' \<longleftrightarrow> (\<exists>cs. r = CHR ''y'' # cs \<or> r = CHR ''Y'' # cs)"
  by (cases r) (auto simp: lower_def lower_char_y)

lemma occurrences_emit [simp]:
  "occurrences P (emit e s) = occurrences P s + (if P e then 1 else 0)"
  by (simp add: occurrences_def emit_def)

lemma occurrences_py_print [simp]:
  "occurrences P (py_print line s) = occurrences P s + (if P (Printed line) then 1 else 0)"
  by (simp add: py_print_def)

lemma occurrences_commit [simp]:
  "occurrences P (commit s) = occurrences P s + (if P Committed then 1 else 0)"
  by (simp add: commit_def occurrences_def emit_def)

text \<open>
  C8. With no row in \<^verbatim>\<open>activity_detail\<close> the step prints that the table is already
  emptied and returns: no prompt, no deletion, no commit. With rows, it prompts and reads
  an answer; an answer that starts with \<open>y\<close> or \<open>Y\<close> deletes all rows and commits once;
  any other answer raises \<open>SystemExit 0\<close> with the tables as they were and no commit.
\<close>

theorem wipe_activity_detail_gating:
  "(activity_detail (session s) = 0 \<longrightarrow>
      wipe_activity_detail s
        = (Inr (), py_print (CHR 0x0A # ''activity_detail table is aleady emptied'') s))
   \<and> (activity_detail (session s) \<noteq> 0 \<and> stdin s = response # rest \<longrightarrow>
        (case wipe_activity_detail s of (r, s') \<Rightarrow>
           prompts s' = prompts s + 1 \<and>
           (if \<exists>cs. response = CHR ''y'' # cs \<or> response = CHR ''Y'' # cs
            then r = Inr () \<and> activity_detail (session s') = 0
                 \<and> committed s' = session s' \<and> commits s' = commits s + 1
            else r = Inl (SystemExit 0) \<and> session s' = session s
                 \<and> committed s' = committed s \<and> commits s' = commits s)))"
proof (intro conjI impI)
  assume "activity_detail (session s) = 0"
  then show "wipe_activity_detail s
        = (Inr (), py_print (CHR 0x0A # ''activity_detail table is aleady emptied'') s)"
    by (simp add: wipe_activity_detail_def)
next
  assume a: "activity_detail (session s) \<noteq> 0 \<and> stdin s = response # rest"
  show "case wipe_activity_detail s of (r, s') \<Rightarrow>
           prompts s' = prompts s + 1 \<and>
           (if \<exists>cs. response = CHR ''y'' # cs \<or> response = CHR ''Y'' # cs
            then r = Inr () \<and> activity_detail (session s') = 0
                 \<and> committed s' = session s' \<and> commits s' = commits s + 1
            else r = Inl (SystemExit 0) \<and> session s' = session s
                 \<and> committed s' = committed s \<and> commits s' = commits s)"
  proof (cases "take 1 (lower response) = ''y''")
    case True
    with a show ?thesis
      unfolding affirmative_iff [symmetric]
      by (simp add: wipe_activity_detail_def Let_def prompts_def commits_def)
         (simp add: commit_def emit_def py_print_def occurrences_def)
  next
    case False
    with a show ?thesis
      unfolding affirmative_iff [symmetric]
      by (simp add: wipe_activity_detail_def Let_def prompts_def commits_def)
         (simp add: emit_def py_print_def occurrences_def)
  qed
qed

text \<open>C8 on an empty table, on the answer \<open>Yes\<close> and on the answer \<open>no\<close>.\<close>

theorem wipe_activity_detail_gating_witness:
  "wipe_activity_detail (fresh_process (detail_db 0) [])
     = (Inr (), py_print (CHR 0x0A # ''activity_detail table is aleady emptied'')
                  (fresh_process (detail_db 0) []))
   \<and> fst (wipe_activity_detail (fresh_process (detail_db 3) [''Yes''])) = Inr ()
   \<and> activity_detail (committed (snd (wipe_activity_detail (fresh_process (detail_db 3) [''Yes''])))) = 0
   \<and> commits (snd (wipe_activity_detail (fresh_process (detail_db 3) [''Yes''])))= 1
   \<and> fst (wipe_activity_detail (fresh_process (detail_db 3) [''no''])) = Inl (SystemExit 0)
   \<and> activity_detail (committed (snd (wipe_activity_detail (fresh_process (detail_db 3) [''no''])))) = 3
   \<and> commits (snd (wipe_activity_detail (fresh_process (detail_db 3) [''no''])))= 0"
  using wipe_activity_detail_gating [of "fresh_process (detail_db 0) []" "[]" "[]"]
    wipe_activity_detail_gating [of "fresh_process (detail_db 3) [''Yes'']" "''Yes''" "[]"]
    wipe_activity_detail_gating [of "fresh_process (detail_db 3) [''no'']" "''no''" "[]"]
  by (simp add: fresh_process_def detail_db_def commits_def occurrences_def split: prod.splits)

section \<open>State and effects\<close>

lemma emit_fields [simp]:
  "session (emit e s) = session s" "committed (emit e s) = committed s"
  "dirty (emit e s) = dirty s" "global_context (emit e s) = global_context s"
  "stdin (emit e s) = stdin s" "trace (emit e s) = trace s @ [e]"
  by (simp_all add: emit_def)

lemma py_print_fields [simp]:
  "session (py_print l s) = session s" "committed (py_print l s) = committed s"
  "dirty (py_print l s) = dirty s" "global_context (py_print l s) = global_context s"
  "stdin (py_print l s) = stdin s" "trace (py_print l s) = trace s @ [Printed l]"
  by (simp_all add: py_print_def)

lemma assign_data_fields [simp]:
  "session (assign_data aid d s) = (session s)\<lparr>activities := (activities (session s))(aid \<mapsto> d)\<rparr>"
  "committed (assign_data aid d s) = committed s"
  "dirty (assign_data aid d s) = insert aid (dirty s)"
  "global_context (assign_data aid d s) = global_context s"
  "stdin (assign_data aid d s) = stdin s"
  "trace (assign_data aid d s) = trace s @ [DataAssigned aid d]"
  by (simp_all add: assign_data_def)

lemma commit_fields [simp]:
  "session (commit s) = session s" "committed (commit s) = session s"
  "dirty (commit s) = {}" "global_context (commit s) = global_context s"
  "stdin (commit s) = stdin s" "trace (commit s) = trace s @ [Committed]"
  by (simp_all add: commit_def)

lemma occurrences_trace:
  "trace s' = trace s @ es \<Longrightarrow> occurrences P s' = occurrences P s + length (filter P es)"
  by (simp add: occurrences_def)

lemma fully_migrated_session:
  "session s' = session s \<Longrightarrow> fully_migrated s' aid = fully_migrated s aid"
  by (simp add: fully_migrated_def)

text \<open>The attachment step.\<close>

lemma attach_frame:
  assumes "attach aid data s = (r, s')"
  shows "committed s' = committed s" "global_context s' = global_context s"
    "stdin s' = stdin s" "users (session s') = users (session s)"
    "activity_detail (session s') = activity_detail (session s)"
    "commits s' = commits s" "reconstructions s' = reconstructions s"
  using assms
  by (auto simp: attach_def Let_def commits_def reconstructions_def occurrences_def
      split: option.splits sum.splits if_splits)

lemma attach_cases:
  assumes "attach aid data s = (r, s')"
  obtains (error) e where "r = Inl e" "\<not> fully_migrated s aid" "session s' = session s"
      "dirty s' = dirty s" "mutations s' = mutations s"
  | (skipped) "r = Inr ()" "fully_migrated s aid" "session s' = session s"
      "dirty s' = dirty s" "mutations s' = mutations s"
      "trace s' = trace s @ [ActivityGet aid, Printed ''    Full dataset already recorded - no action'']"
  | (assigned) "r = Inr ()" "\<not> fully_migrated s aid"
      "session s' = (session s)\<lparr>activities := (activities (session s))(aid \<mapsto> data)\<rparr>"
      "dirty s' = insert aid (dirty s)" "mutations s' = mutations s + 1"
      "trace s' = trace s @ [ActivityGet aid, DataAssigned aid data]"
proof (cases "activities (session s) aid")
  case None
  with assms have "r = Inl AttributeError" "s' = emit (ActivityGet aid) s"
    by (simp_all add: attach_def Let_def)
  with None show ?thesis
    by (intro error) (simp_all add: fully_migrated_def mutations_def occurrences_def)
next
  case (Some old)
  show ?thesis
  proof (cases "is_fully_migrated old")
    case (Inl e)
    with Some assms have "r = Inl e" "s' = emit (ActivityGet aid) s"
      by (simp_all add: attach_def Let_def)
    with Some Inl show ?thesis
      by (intro error) (simp_all add: fully_migrated_def mutations_def occurrences_def)
  next
    case (Inr b)
    show ?thesis
    proof (cases b)
      case True
      with Some Inr assms have "r = Inr ()"
        "s' = py_print ''    Full dataset already recorded - no action'' (emit (ActivityGet aid) s)"
        by (simp_all add: attach_def Let_def)
      with Some Inr True show ?thesis
        by (intro skipped) (simp_all add: fully_migrated_def mutations_def occurrences_def)
    next
      case False
      with Some Inr assms have "r = Inr ()"
        "s' = assign_data aid data (emit (ActivityGet aid) s)"
        by (simp_all add: attach_def Let_def)
      with Some Inr False show ?thesis
        by (intro assigned) (simp_all add: fully_migrated_def mutations_def occurrences_def)
    qed
  qed
qed

text \<open>The loop body.\<close>

lemma migrate_activity_failure:
  assumes "reconstruct_normalized env (ctx\<lparr>ctx_revision_id := Some (revision_id a)\<rparr>) a = Inl e"
  shows "migrate_activity env ctx i n a s =
    (Inl e, emit (PackageShow (ctx\<lparr>ctx_revision_id := Some (revision_id a)\<rparr>) (object_id a) False)
       ((py_print (''  activity '' @ show_nat (i + 1) @ ''/'' @ show_nat n @ '' '' @ timestamp a) s)
          \<lparr>global_context := Some (ctx\<lparr>ctx_revision_id := Some (revision_id a)\<rparr>)\<rparr>))"
  using assms by (simp add: migrate_activity_def Let_def)

lemma migrate_activity_success:
  assumes "reconstruct_normalized env (ctx\<lparr>ctx_revision_id := Some (revision_id a)\<rparr>) a = Inr snap"
  shows "migrate_activity env ctx i n a s =
    (case attach (activity_id a)
            (JDict [(''package'', snap), (''actor'', JStr (actor_name s a))])
            (emit (UserGet (user_id a))
              (emit (PackageShow (ctx\<lparr>ctx_revision_id := Some (revision_id a)\<rparr>) (object_id a) False)
                ((py_print (''  activity '' @ show_nat (i + 1) @ ''/'' @ show_nat n @ '' ''
                            @ timestamp a) s)
                   \<lparr>global_context := Some (ctx\<lparr>ctx_revision_id := Some (revision_id a)\<rparr>)\<rparr>))) of
       (Inl e, s4) \<Rightarrow> (Inl e, s4)
     | (Inr u, s4) \<Rightarrow> (Inr (ctx\<lparr>ctx_revision_id := Some (revision_id a)\<rparr>), s4))"
  using assms by (simp add: migrate_activity_def Let_def actor_name_def)

lemma migrate_activity_frame:
  assumes "migrate_activity env ctx i n a s = (r, s')"
  shows "committed s' = committed s" "stdin s' = stdin s"
    "users (session s') = users (session s)"
    "activity_detail (session s') = activity_detail (session s)"
    "commits s' = commits s" "reconstructions s' = reconstructions s + 1"
    "global_context s' = Some (ctx\<lparr>ctx_revision_id := Some (revision_id a)\<rparr>)"
proof -
  let ?ctx = "ctx\<lparr>ctx_revision_id := Some (revision_id a)\<rparr>"
  let ?s2 = "emit (PackageShow ?ctx (object_id a) False)
       ((py_print (''  activity '' @ show_nat (i + 1) @ ''/'' @ show_nat n @ '' '' @ timestamp a) s)
          \<lparr>global_context := Some ?ctx\<rparr>)"
  have s2: "committed ?s2 = committed s" "stdin ?s2 = stdin s" "session ?s2 = session s"
    "commits ?s2 = commits s" "reconstructions ?s2 = reconstructions s + 1"
    "global_context ?s2 = Some ?ctx"
    by (simp_all add: commits_def reconstructions_def occurrences_def)
  have "committed s' = committed s \<and> stdin s' = stdin s
    \<and> users (session s') = users (session s)
    \<and> activity_detail (session s') = activity_detail (session s)
    \<and> commits s' = commits s \<and> reconstructions s' = reconstructions s + 1
    \<and> global_context s' = Some ?ctx"
  proof (cases "reconstruct_normalized env ?ctx a")
    case (Inl e)
    from assms have "s' = ?s2"
      unfolding migrate_activity_failure [OF Inl] by simp
    with s2 show ?thesis by simp
  next
    case (Inr snap)
    let ?s3 = "emit (UserGet (user_id a)) ?s2"
    let ?data = "JDict [(''package'', snap), (''actor'', JStr (actor_name s a))]"
    obtain r0 s4 where att: "attach (activity_id a) ?data ?s3 = (r0, s4)"
      by (cases "attach (activity_id a) ?data ?s3")
    from assms have "s' = s4"
      unfolding migrate_activity_success [OF Inr] att by (simp split: sum.splits)
    moreover have "commits ?s3 = commits s" "reconstructions ?s3 = reconstructions s + 1"
      by (simp_all add: commits_def reconstructions_def occurrences_def)
    ultimately show ?thesis
      using attach_frame [OF att] by simp
  qed
  then show "committed s' = committed s" "stdin s' = stdin s"
    "users (session s') = users (session s)"
    "activity_detail (session s') = activity_detail (session s)"
    "commits s' = commits s" "reconstructions s' = reconstructions s + 1"
    "global_context s' = Some ?ctx"
    by simp_all
qed

lemma migrate_activity_cases:
  assumes "migrate_activity env ctx i n a s = (r, s')"
  obtains (failed) e where "r = Inl e" "session s' = session s" "dirty s' = dirty s"
      "mutations s' = mutations s"
      "reconstruct_normalized env (ctx\<lparr>ctx_revision_id := Some (revision_id a)\<rparr>) a = Inl e
       \<or> \<not> fully_migrated s (activity_id a)"
  | (skipped) snap where "r = Inr (ctx\<lparr>ctx_revision_id := Some (revision_id a)\<rparr>)"
      "reconstruct_normalized env (ctx\<lparr>ctx_revision_id := Some (revision_id a)\<rparr>) a = Inr snap"
      "fully_migrated s (activity_id a)" "session s' = session s" "dirty s' = dirty s"
      "mutations s' = mutations s"
  | (assigned) snap where "r = Inr (ctx\<lparr>ctx_revision_id := Some (revision_id a)\<rparr>)"
      "reconstruct_normalized env (ctx\<lparr>ctx_revision_id := Some (revision_id a)\<rparr>) a = Inr snap"
      "\<not> fully_migrated s (activity_id a)"
      "session s' = (session s)\<lparr>activities := (activities (session s))(activity_id a \<mapsto>
          JDict [(''package'', snap), (''actor'', JStr (actor_name s a))])\<rparr>"
      "dirty s' = insert (activity_id a) (dirty s)" "mutations s' = mutations s + 1"
proof -
  let ?ctx = "ctx\<lparr>ctx_revision_id := Some (revision_id a)\<rparr>"
  let ?s2 = "emit (PackageShow ?ctx (object_id a) False)
       ((py_print (''  activity '' @ show_nat (i + 1) @ ''/'' @ show_nat n @ '' '' @ timestamp a) s)
          \<lparr>global_context := Some ?ctx\<rparr>)"
  show ?thesis
  proof (cases "reconstruct_normalized env ?ctx a")
    case (Inl e)
    from assms have "r = Inl e" "s' = ?s2"
      unfolding migrate_activity_failure [OF Inl] by simp_all
    with Inl show ?thesis
      by (intro failed [of e]) (simp_all add: mutations_def occurrences_def)
  next
    case (Inr snap)
    let ?s3 = "emit (UserGet (user_id a)) ?s2"
    let ?data = "JDict [(''package'', snap), (''actor'', JStr (actor_name s a))]"
    have s3: "session ?s3 = session s" "dirty ?s3 = dirty s" "mutations ?s3 = mutations s"
      by (simp_all add: mutations_def occurrences_def)
    have fm: "fully_migrated ?s3 (activity_id a) = fully_migrated s (activity_id a)"
      by (rule fully_migrated_session) simp
    obtain r0 s4 where att: "attach (activity_id a) ?data ?s3 = (r0, s4)"
      by (cases "attach (activity_id a) ?data ?s3")
    from assms have res: "(r, s') = (case r0 of Inl e \<Rightarrow> (Inl e, s4) | Inr u \<Rightarrow> (Inr ?ctx, s4))"
      unfolding migrate_activity_success [OF Inr] att by simp
    from att show ?thesis
    proof (cases rule: attach_cases)
      case (error e)
      with res s3 fm show ?thesis by (intro failed [of e]) simp_all
    next
      case skipped
      with res s3 fm Inr show ?thesis by (intro that(2)) simp_all
    next
      case assigned
      with res s3 fm Inr show ?thesis by (intro that(3)) simp_all
    qed
  qed
qed

lemma normalize_has_resources:
  assumes "normalize d = Inr snap"
  shows "contains ''resources'' snap = Inr True"
proof -
  from assms obtain d1 where "strip_dataset_resources d1 = Inr snap"
    by (auto simp: normalize_def split: sum.splits)
  then show ?thesis
  proof (cases rule: strip_dataset_resources_cases)
    case (1 kvs xs xs')
    then show ?thesis by (simp add: setitem_def dom_update)
  next
    case (2 kvs rs)
    from 2(2) have "(''resources'', rs) \<in> set kvs" by (rule map_of_SomeD)
    then have "''resources'' \<in> fst ` set kvs" by force
    with 2 show ?thesis by simp
  qed
qed

lemma snapshot_fully_migrated:
  assumes "reconstruct_normalized env ctx a = Inr snap"
  shows "is_fully_migrated (JDict [(''package'', snap), (''actor'', JStr name)]) = Inr True"
proof -
  from assms obtain d where "normalize d = Inr snap"
    by (auto simp: reconstruct_normalized_def split: sum.splits)
  from normalize_has_resources [OF this] show ?thesis
    by (simp add: is_fully_migrated_def)
qed

lemma migrate_activity_migrates:
  assumes "migrate_activity env ctx i n a s = (Inr c, s')"
  shows "fully_migrated s' (activity_id a)"
  using assms
proof (cases rule: migrate_activity_cases)
  case (failed e)
  then show ?thesis by simp
next
  case (skipped snap)
  then show ?thesis by (simp add: fully_migrated_def)
next
  case (assigned snap)
  then show ?thesis
    by (simp add: fully_migrated_def snapshot_fully_migrated)
qed

lemma migrate_activity_other:
  assumes "migrate_activity env ctx i n a s = (r, s')" and "b \<noteq> activity_id a"
  shows "activities (session s') b = activities (session s) b"
  using assms(1)
  by (cases rule: migrate_activity_cases) (use assms(2) in simp_all)

lemma migrate_activity_keeps:
  assumes "migrate_activity env ctx i n a s = (r, s')" and "fully_migrated s b"
  shows "activities (session s') b = activities (session s) b"
  using assms(1)
proof (cases rule: migrate_activity_cases)
  case (assigned snap)
  with assms(2) have "b \<noteq> activity_id a" by auto
  with assigned show ?thesis by simp
qed simp_all

lemma fully_migrated_cong:
  "activities (session s') b = activities (session s) b \<Longrightarrow>
   fully_migrated s' b = fully_migrated s b"
  by (simp add: fully_migrated_def)

text \<open>The loop.\<close>

lemma migrate_activities_frame:
  "migrate_activities env ctx i n acts s = (r, s') \<Longrightarrow>
   committed s' = committed s \<and> stdin s' = stdin s \<and> users (session s') = users (session s)
   \<and> activity_detail (session s') = activity_detail (session s) \<and> commits s' = commits s"
proof (induction acts arbitrary: ctx i s)
  case Nil
  then show ?case by simp
next
  case (Cons a acts)
  obtain r1 s1 where b: "migrate_activity env ctx i n a s = (r1, s1)"
    by (cases "migrate_activity env ctx i n a s")
  note f = migrate_activity_frame [OF b]
  show ?case
  proof (cases r1)
    case (Inl e)
    with Cons.prems b have "s' = s1" by simp
    with f show ?thesis by simp
  next
    case (Inr c)
    with Cons.prems b have "migrate_activities env c (i + 1) n acts s1 = (r, s')" by simp
    from Cons.IH [OF this] f show ?thesis by simp
  qed
qed

lemma migrate_activities_keeps:
  "migrate_activities env ctx i n acts s = (r, s') \<Longrightarrow> fully_migrated s b \<Longrightarrow>
   activities (session s') b = activities (session s) b"
proof (induction acts arbitrary: ctx i s)
  case Nil
  then show ?case by simp
next
  case (Cons a acts)
  obtain r1 s1 where b: "migrate_activity env ctx i n a s = (r1, s1)"
    by (cases "migrate_activity env ctx i n a s")
  note k = migrate_activity_keeps [OF b Cons.prems(2)]
  show ?case
  proof (cases r1)
    case (Inl e)
    with Cons.prems b have "s' = s1" by simp
    with k show ?thesis by simp
  next
    case (Inr c)
    with Cons.prems b have l: "migrate_activities env c (i + 1) n acts s1 = (r, s')" by simp
    from Cons.prems(2) have "fully_migrated s1 b" by (simp only: fully_migrated_cong [OF k])
    from Cons.IH [OF l this] k show ?thesis by simp
  qed
qed

lemma migrate_activities_success:
  "migrate_activities env ctx i n acts s = (Inr c, s') \<Longrightarrow>
   reconstructions s' = reconstructions s + length acts
   \<and> c = (if acts = [] then ctx else ctx\<lparr>ctx_revision_id := Some (revision_id (last acts))\<rparr>)
   \<and> (global_context s = Some ctx \<longrightarrow> global_context s' = Some c)
   \<and> (\<forall>a \<in> set acts. fully_migrated s' (activity_id a)
         \<and> (\<exists>snap. reconstruct_normalized env (ctx\<lparr>ctx_revision_id := Some (revision_id a)\<rparr>) a
                      = Inr snap))"
proof (induction acts arbitrary: ctx i s)
  case Nil
  then show ?case by simp
next
  case (Cons a acts)
  let ?ctx = "ctx\<lparr>ctx_revision_id := Some (revision_id a)\<rparr>"
  obtain r1 s1 where b: "migrate_activity env ctx i n a s = (r1, s1)"
    by (cases "migrate_activity env ctx i n a s")
  from Cons.prems b obtain c1 where r1: "r1 = Inr c1"
    and l: "migrate_activities env c1 (i + 1) n acts s1 = (Inr c, s')"
    by (cases r1) simp_all
  note f = migrate_activity_frame [OF b]
  from b r1 have b': "migrate_activity env ctx i n a s = (Inr c1, s1)" by simp
  from b' have "c1 = ?ctx \<and> (\<exists>snap. reconstruct_normalized env ?ctx a = Inr snap)"
  proof (cases rule: migrate_activity_cases)
    case (failed e)
    then show ?thesis by simp
  next
    case (skipped snap)
    from skipped(1) have "c1 = ?ctx" by simp
    with skipped(2) show ?thesis by blast
  next
    case (assigned snap)
    from assigned(1) have "c1 = ?ctx" by simp
    with assigned(2) show ?thesis by blast
  qed
  then have c1: "c1 = ?ctx" and rec: "\<exists>snap. reconstruct_normalized env ?ctx a = Inr snap"
    by blast+
  from b r1 have m1: "fully_migrated s1 (activity_id a)"
    by (simp add: migrate_activity_migrates)
  have m: "fully_migrated s' (activity_id a)"
    using m1 by (simp only: fully_migrated_cong [OF migrate_activities_keeps [OF l m1]])
  note ih = Cons.IH [OF l]
  from ih f have "reconstructions s' = reconstructions s + length (a # acts)" by simp
  moreover from ih c1 have
    "c = (if a # acts = [] then ctx else ctx\<lparr>ctx_revision_id := Some (revision_id (last (a # acts)))\<rparr>)"
    by simp
  moreover from ih f c1 have "global_context s' = Some c" by simp
  moreover from ih c1 m rec have
    "\<forall>b \<in> set (a # acts). fully_migrated s' (activity_id b)
       \<and> (\<exists>snap. reconstruct_normalized env (ctx\<lparr>ctx_revision_id := Some (revision_id b)\<rparr>) b
                    = Inr snap)"
    by simp
  ultimately show ?case by blast
qed

lemma migrate_activity_rerun:
  assumes "fully_migrated t (activity_id a)"
    and "reconstruct_normalized env (ctx\<lparr>ctx_revision_id := Some (revision_id a)\<rparr>) a = Inr snap"
  shows "\<exists>t1. migrate_activity env ctx i n a t
            = (Inr (ctx\<lparr>ctx_revision_id := Some (revision_id a)\<rparr>), t1)
          \<and> session t1 = session t \<and> dirty t1 = dirty t \<and> mutations t1 = mutations t"
proof -
  obtain r t1 where b: "migrate_activity env ctx i n a t = (r, t1)"
    by (cases "migrate_activity env ctx i n a t")
  from b show ?thesis
  proof (cases rule: migrate_activity_cases)
    case (failed e)
    with assms show ?thesis by simp
  next
    case (skipped snap')
    with b show ?thesis by simp
  next
    case (assigned snap')
    with assms show ?thesis by simp
  qed
qed

lemma migrate_activities_rerun:
  "\<forall>a \<in> set acts. fully_migrated t (activity_id a)
      \<and> (\<exists>snap. reconstruct_normalized env (ctx\<lparr>ctx_revision_id := Some (revision_id a)\<rparr>) a
                   = Inr snap) \<Longrightarrow>
   \<exists>c t1. migrate_activities env ctx i n acts t = (Inr c, t1)
      \<and> session t1 = session t \<and> dirty t1 = dirty t \<and> mutations t1 = mutations t"
proof (induction acts arbitrary: ctx i t)
  case Nil
  then show ?case by simp
next
  case (Cons a acts)
  let ?ctx = "ctx\<lparr>ctx_revision_id := Some (revision_id a)\<rparr>"
  from Cons.prems obtain snap where fm: "fully_migrated t (activity_id a)"
    and rec: "reconstruct_normalized env ?ctx a = Inr snap"
    by auto
  from migrate_activity_rerun [OF fm rec] obtain t1 where
    b: "migrate_activity env ctx i n a t = (Inr ?ctx, t1)"
    and t1: "session t1 = session t" "dirty t1 = dirty t" "mutations t1 = mutations t"
    by blast
  have "\<forall>b \<in> set acts. fully_migrated t1 (activity_id b)
      \<and> (\<exists>snap. reconstruct_normalized env (?ctx\<lparr>ctx_revision_id := Some (revision_id b)\<rparr>) b
                   = Inr snap)"
    using Cons.prems t1(1) by (simp add: fully_migrated_def)
  from Cons.IH [OF this, of "i + 1"] obtain c t2 where
    "migrate_activities env ?ctx (i + 1) n acts t1 = (Inr c, t2)"
    "session t2 = session t1" "dirty t2 = dirty t1" "mutations t2 = mutations t1"
    by blast
  with b t1 show ?case by simp
qed



section \<open>One dataset\<close>

lemma get_context_frame:
  assumes "get_context env s = (r, s1)"
  shows "session s1 = session s" "committed s1 = committed s" "dirty s1 = dirty s"
    "stdin s1 = stdin s" "commits s1 = commits s" "mutations s1 = mutations s"
    "reconstructions s1 = reconstructions s"
    "r = Inr ctx \<Longrightarrow> global_context s1 = Some ctx"
  using assms
  by (auto simp: get_context_def Let_def commits_def mutations_def reconstructions_def
      occurrences_def split: option.splits sum.splits)

lemma commit_gate_fields [simp]:
  "session (commit_gate s) = session s"
  "committed (commit_gate s) = (if dirty s \<noteq> {} then session s else committed s)"
  "dirty (commit_gate s) = {}"
  "global_context (commit_gate s) = global_context s"
  "stdin (commit_gate s) = stdin s"
  by (simp_all add: commit_gate_def)

lemma commit_gate_counts [simp]:
  "commits (commit_gate s) = commits s + (if dirty s \<noteq> {} then 1 else 0)"
  "mutations (commit_gate s) = mutations s"
  "reconstructions (commit_gate s) = reconstructions s"
  by (simp_all add: commit_gate_def commits_def mutations_def reconstructions_def
      occurrences_def)

lemma py_print_counts [simp]:
  "commits (py_print l s) = commits s" "mutations (py_print l s) = mutations s"
  "reconstructions (py_print l s) = reconstructions s"
  by (simp_all add: commits_def mutations_def reconstructions_def occurrences_def)

lemma loop_entry_fields [simp]:
  "session (loop_entry ctx name acts s1) = session s1"
  "committed (loop_entry ctx name acts s1) = committed s1"
  "dirty (loop_entry ctx name acts s1) = dirty s1"
  "stdin (loop_entry ctx name acts s1) = stdin s1"
  "global_context (loop_entry ctx name acts s1)
     = Some (ctx\<lparr>include_hidden_activity := Some True, for_view := Some False\<rparr>)"
  "commits (loop_entry ctx name acts s1) = commits s1"
  "mutations (loop_entry ctx name acts s1) = mutations s1"
  "reconstructions (loop_entry ctx name acts s1) = reconstructions s1"
  by (simp_all add: loop_entry_def Let_def commits_def mutations_def reconstructions_def
      occurrences_def)

lemma migrate_dataset_unfold:
  assumes "get_context env s = (Inr ctx, s1)"
    and "package_activity_list env (ctx\<lparr>include_hidden_activity := Some True\<rparr>) name = Inr acts"
  shows "migrate_dataset env name s =
    (case migrate_activities env (ctx\<lparr>include_hidden_activity := Some True, for_view := Some False\<rparr>)
            0 (length acts) acts (loop_entry ctx name acts s1) of
       (Inl e, s5) \<Rightarrow> (Inl e, s5)
     | (Inr c, s5) \<Rightarrow>
         (Inr (), py_print (''All '' @ show_nat (length acts) @ '' datasets are migrated'')
                    (commit_gate s5)))"
  using assms by (simp add: migrate_dataset_def loop_entry_def Let_def)

lemma migrate_activities_failure:
  assumes "a \<in> set acts"
    and "reconstruct_normalized env (ctx\<lparr>ctx_revision_id := Some (revision_id a)\<rparr>) a = Inl e"
  shows "\<exists>e' s'. migrate_activities env ctx i n acts s = (Inl e', s')"
proof (cases "migrate_activities env ctx i n acts s")
  case (Pair r s')
  show ?thesis
  proof (cases r)
    case (Inl e')
    with Pair show ?thesis by blast
  next
    case (Inr c)
    with Pair have "migrate_activities env ctx i n acts s = (Inr c, s')" by simp
    from migrate_activities_success [OF this] assms show ?thesis by auto
  qed
qed

lemma migrate_dataset_commits:
  assumes "migrate_dataset env name s = (r, s')"
  shows "commits s' \<le> commits s + 1 \<and> (\<forall>e. r = Inl e \<longrightarrow> commits s' = commits s \<and> committed s' = committed s)"
proof (cases "get_context env s")
  case (Pair r0 s1)
  note gc = get_context_frame [OF Pair]
  show ?thesis
  proof (cases r0)
    case (Inl e)
    with assms Pair have "r = Inl e" and "s' = s1" by (simp_all add: migrate_dataset_def)
    with gc show ?thesis by simp
  next
    case (Inr ctx)
    let ?ctx1 = "ctx\<lparr>include_hidden_activity := Some True\<rparr>"
    show ?thesis
    proof (cases "package_activity_list env ?ctx1 name")
      case (Inl e)
      with assms Pair Inr have "r = Inl e"
        and "s' = emit (PackageActivityList ?ctx1 name) (s1\<lparr>global_context := Some ?ctx1\<rparr>)"
        by (simp_all add: migrate_dataset_def Let_def)
      with gc show ?thesis by (simp add: commits_def occurrences_def)
    next
      case stream: (Inr acts)
      from Pair Inr have g: "get_context env s = (Inr ctx, s1)" by simp
      note u = migrate_dataset_unfold [OF g stream]
      obtain r5 s5 where l: "migrate_activities env (?ctx1\<lparr>for_view := Some False\<rparr>) 0 (length acts)
          acts (loop_entry ctx name acts s1) = (r5, s5)"
        by (cases "migrate_activities env (?ctx1\<lparr>for_view := Some False\<rparr>) 0 (length acts)
          acts (loop_entry ctx name acts s1)")
      note f = migrate_activities_frame [OF l]
      show ?thesis
      proof (cases r5)
        case (Inl e)
        with assms u l have "r = Inl e" "s' = s5" by simp_all
        with f gc show ?thesis by simp
      next
        case (Inr c)
        with assms u l have "r = Inr ()"
          "s' = py_print (''All '' @ show_nat (length acts) @ '' datasets are migrated'') (commit_gate s5)"
          by simp_all
        with f gc show ?thesis by simp
      qed
    qed
  qed
qed

lemma migrate_dataset_success:
  assumes g: "get_context env s = (Inr ctx, s1)"
    and stream: "package_activity_list env (ctx\<lparr>include_hidden_activity := Some True\<rparr>) name = Inr acts"
    and run: "migrate_dataset env name s = (Inr (), s')"
  obtains c s5 where
    "migrate_activities env (ctx\<lparr>include_hidden_activity := Some True, for_view := Some False\<rparr>)
       0 (length acts) acts (loop_entry ctx name acts s1) = (Inr c, s5)"
    "s' = py_print (''All '' @ show_nat (length acts) @ '' datasets are migrated'') (commit_gate s5)"
proof -
  let ?ctx2 = "ctx\<lparr>include_hidden_activity := Some True, for_view := Some False\<rparr>"
  obtain r5 s5 where l: "migrate_activities env ?ctx2 0 (length acts) acts
      (loop_entry ctx name acts s1) = (r5, s5)"
    by (cases "migrate_activities env ?ctx2 0 (length acts) acts (loop_entry ctx name acts s1)")
  show ?thesis
  proof (cases r5)
    case (Inl e)
    with run l show ?thesis unfolding migrate_dataset_unfold [OF g stream] by simp
  next
    case (Inr c)
    with run l have
      "s' = py_print (''All '' @ show_nat (length acts) @ '' datasets are migrated'') (commit_gate s5)"
      unfolding migrate_dataset_unfold [OF g stream] by simp
    with l Inr show ?thesis by (intro that [of c s5]) simp_all
  qed
qed

lemma fully_migrated_loop_entry [simp]:
  "fully_migrated (loop_entry ctx name acts s1) aid = fully_migrated s1 aid"
  by (simp add: fully_migrated_def)

lemma actor_name_loop_entry [simp]:
  "actor_name (loop_entry ctx name acts s1) a = actor_name s1 a"
  by (simp add: actor_name_def)


text \<open>
  C7. When the activity list of a dataset is empty and the session has no dirty object on
  entry, \<^verbatim>\<open>migrate_dataset\<close> returns normally; after the request for the list its only
  effects are the lines \<open>No activities\<close> and \<open>All 0 datasets are migrated\<close>: no call of
  \<^verbatim>\<open>package_show\<close>, no assignment, no commit.
\<close>

theorem empty_dataset_is_noop:
  assumes g: "get_context env s = (Inr ctx, s1)"
    and stream: "package_activity_list env (ctx\<lparr>include_hidden_activity := Some True\<rparr>) name = Inr []"
    and clean: "dirty s = {}"
  shows "\<exists>s'. migrate_dataset env name s = (Inr (), s')
         \<and> reconstructions s' = reconstructions s \<and> commits s' = commits s
         \<and> mutations s' = mutations s \<and> session s' = session s \<and> committed s' = committed s
         \<and> trace s' = trace s1 @
              [PackageActivityList (ctx\<lparr>include_hidden_activity := Some True\<rparr>) name,
               Printed ''  No activities'', Printed ''All 0 datasets are migrated'']"
proof -
  note gc = get_context_frame [OF g]
  have d: "dirty (loop_entry ctx name [] s1) = {}" using gc clean by simp
  have "migrate_dataset env name s =
      (Inr (), py_print (''All '' @ show_nat 0 @ '' datasets are migrated'')
                 (commit_gate (loop_entry ctx name [] s1)))"
    unfolding migrate_dataset_unfold [OF g stream] by simp
  moreover have "commit_gate (loop_entry ctx name [] s1) = loop_entry ctx name [] s1"
    using d by (simp add: commit_gate_def)
  moreover have "show_nat 0 = ''0''" by (simp add: show_nat.simps)
  ultimately have run: "migrate_dataset env name s =
      (Inr (), py_print ''All 0 datasets are migrated'' (loop_entry ctx name [] s1))"
    by simp
  have "trace (py_print ''All 0 datasets are migrated'' (loop_entry ctx name [] s1))
      = trace s1 @ [PackageActivityList (ctx\<lparr>include_hidden_activity := Some True\<rparr>) name,
               Printed ''  No activities'', Printed ''All 0 datasets are migrated'']"
    by (simp add: loop_entry_def Let_def)
  with run gc show ?thesis by simp
qed

lemma attach_trace_head:
  assumes "attach aid d s = (r, s')"
  shows "\<exists>rest. trace s' = trace s @ ActivityGet aid # rest"
  using assms
  by (auto simp: attach_def Let_def split: option.splits sum.splits if_splits)

lemma migrate_activity_order:
  assumes rec: "reconstruct_normalized env (ctx\<lparr>ctx_revision_id := Some (revision_id a)\<rparr>) a = Inr snap"
    and run: "migrate_activity env ctx i n a s = (r, s')"
  shows "\<exists>rest. trace s' = trace s @
           [Printed (''  activity '' @ show_nat (i + 1) @ ''/'' @ show_nat n @ '' '' @ timestamp a),
            PackageShow (ctx\<lparr>ctx_revision_id := Some (revision_id a)\<rparr>) (object_id a) False,
            UserGet (user_id a), ActivityGet (activity_id a)] @ rest"
proof -
  let ?s3 = "emit (UserGet (user_id a))
              (emit (PackageShow (ctx\<lparr>ctx_revision_id := Some (revision_id a)\<rparr>) (object_id a) False)
                ((py_print (''  activity '' @ show_nat (i + 1) @ ''/'' @ show_nat n @ '' ''
                            @ timestamp a) s)
                   \<lparr>global_context := Some (ctx\<lparr>ctx_revision_id := Some (revision_id a)\<rparr>)\<rparr>))"
  let ?data = "JDict [(''package'', snap), (''actor'', JStr (actor_name s a))]"
  obtain r0 s4 where att: "attach (activity_id a) ?data ?s3 = (r0, s4)"
    by (cases "attach (activity_id a) ?data ?s3")
  from run have "s' = s4"
    unfolding migrate_activity_success [OF rec] att by (simp split: sum.splits)
  with attach_trace_head [OF att] show ?thesis by auto
qed

text \<open>
  C9. The dataset is reconstructed before the Activity row is looked at. A call that returns
  has called \<^verbatim>\<open>package_show\<close> once per listed activity, whether or not the activity
  already passed the test of line 133. When \<^verbatim>\<open>package_show\<close> raises for a listed
  activity, the call raises and commits nothing, whatever the Activity rows hold. In the
  loop body, a failure of reconstruction or normalization ends the body right after the
  \<^verbatim>\<open>package_show\<close> call, before any Activity row is fetched; otherwise the call of
  \<^verbatim>\<open>package_show\<close> and the lookup of the user precede the fetch of the Activity row.
\<close>

theorem reconstruction_precedes_guard:
  assumes g: "get_context env s = (Inr ctx, s1)"
    and stream: "package_activity_list env (ctx\<lparr>include_hidden_activity := Some True\<rparr>) name = Inr acts"
  shows "(\<forall>s'. migrate_dataset env name s = (Inr (), s') \<longrightarrow>
            reconstructions s' = reconstructions s + length acts)
       \<and> (\<forall>a \<in> set acts. \<forall>e.
            package_show env
              (ctx\<lparr>include_hidden_activity := Some True, for_view := Some False,
                   ctx_revision_id := Some (revision_id a)\<rparr>) (object_id a) False = Inl e \<longrightarrow>
            (\<exists>e' s'. migrate_dataset env name s = (Inl e', s')
                \<and> commits s' = commits s \<and> committed s' = committed s))
       \<and> (\<forall>c i n a t e.
            reconstruct_normalized env (c\<lparr>ctx_revision_id := Some (revision_id a)\<rparr>) a = Inl e \<longrightarrow>
            (\<exists>t'. migrate_activity env c i n a t = (Inl e, t')
               \<and> trace t' = trace t @
                   [Printed (''  activity '' @ show_nat (i + 1) @ ''/'' @ show_nat n @ '' ''
                             @ timestamp a),
                    PackageShow (c\<lparr>ctx_revision_id := Some (revision_id a)\<rparr>) (object_id a) False]))
       \<and> (\<forall>c i n a t snap.
            reconstruct_normalized env (c\<lparr>ctx_revision_id := Some (revision_id a)\<rparr>) a = Inr snap \<longrightarrow>
            (\<exists>rest. trace (snd (migrate_activity env c i n a t)) = trace t @
                   [Printed (''  activity '' @ show_nat (i + 1) @ ''/'' @ show_nat n @ '' ''
                             @ timestamp a),
                    PackageShow (c\<lparr>ctx_revision_id := Some (revision_id a)\<rparr>) (object_id a) False,
                    UserGet (user_id a), ActivityGet (activity_id a)] @ rest))"
proof (intro conjI allI ballI impI)
  fix s'
  assume run: "migrate_dataset env name s = (Inr (), s')"
  from g stream run obtain c s5 where
    l: "migrate_activities env (ctx\<lparr>include_hidden_activity := Some True, for_view := Some False\<rparr>)
       0 (length acts) acts (loop_entry ctx name acts s1) = (Inr c, s5)"
    and s': "s' = py_print (''All '' @ show_nat (length acts) @ '' datasets are migrated'')
                   (commit_gate s5)"
    by (rule migrate_dataset_success)
  from migrate_activities_success [OF l] s' get_context_frame [OF g]
  show "reconstructions s' = reconstructions s + length acts" by simp
next
  fix a e
  let ?ctx2 = "ctx\<lparr>include_hidden_activity := Some True, for_view := Some False\<rparr>"
  assume a: "a \<in> set acts"
    and "package_show env (?ctx2\<lparr>ctx_revision_id := Some (revision_id a)\<rparr>) (object_id a) False = Inl e"
  then have "reconstruct_normalized env (?ctx2\<lparr>ctx_revision_id := Some (revision_id a)\<rparr>) a = Inl e"
    by (simp add: reconstruct_normalized_def)
  from migrate_activities_failure [OF a this] obtain e' s5 where
    l: "migrate_activities env ?ctx2 0 (length acts) acts (loop_entry ctx name acts s1) = (Inl e', s5)"
    by blast
  then have run: "migrate_dataset env name s = (Inl e', s5)"
    unfolding migrate_dataset_unfold [OF g stream] by simp
  from migrate_dataset_commits [OF run]
  show "\<exists>e' s'. migrate_dataset env name s = (Inl e', s')
      \<and> commits s' = commits s \<and> committed s' = committed s"
    using run by blast
next
  fix c i n t e and a :: activity
  assume "reconstruct_normalized env (c\<lparr>ctx_revision_id := Some (revision_id a)\<rparr>) a = Inl e"
  from migrate_activity_failure [OF this, of i n t]
  show "\<exists>t'. migrate_activity env c i n a t = (Inl e, t')
               \<and> trace t' = trace t @
                   [Printed (''  activity '' @ show_nat (i + 1) @ ''/'' @ show_nat n @ '' ''
                             @ timestamp a),
                    PackageShow (c\<lparr>ctx_revision_id := Some (revision_id a)\<rparr>) (object_id a) False]"
    by simp
next
  fix c i n t snap and a :: activity
  assume rec: "reconstruct_normalized env (c\<lparr>ctx_revision_id := Some (revision_id a)\<rparr>) a = Inr snap"
  from migrate_activity_order [OF rec surjective_pairing]
  show "\<exists>rest. trace (snd (migrate_activity env c i n a t)) = trace t @
                   [Printed (''  activity '' @ show_nat (i + 1) @ ''/'' @ show_nat n @ '' ''
                             @ timestamp a),
                    PackageShow (c\<lparr>ctx_revision_id := Some (revision_id a)\<rparr>) (object_id a) False,
                    UserGet (user_id a), ActivityGet (activity_id a)] @ rest" .
qed

lemma attach_trace:
  assumes "attach aid d s = (r, s')"
  shows "\<exists>es. trace s' = trace s @ es"
  using assms
  by (auto simp: attach_def Let_def split: option.splits sum.splits if_splits)

lemma migrate_activity_trace:
  assumes "migrate_activity env ctx i n a s = (r, s')"
  shows "\<exists>es. trace s' = trace s @ es"
proof (cases "reconstruct_normalized env (ctx\<lparr>ctx_revision_id := Some (revision_id a)\<rparr>) a")
  case (Inl e)
  from assms show ?thesis unfolding migrate_activity_failure [OF Inl] by auto
next
  case (Inr snap)
  let ?s3 = "emit (UserGet (user_id a))
              (emit (PackageShow (ctx\<lparr>ctx_revision_id := Some (revision_id a)\<rparr>) (object_id a) False)
                ((py_print (''  activity '' @ show_nat (i + 1) @ ''/'' @ show_nat n @ '' ''
                            @ timestamp a) s)
                   \<lparr>global_context := Some (ctx\<lparr>ctx_revision_id := Some (revision_id a)\<rparr>)\<rparr>))"
  let ?data = "JDict [(''package'', snap), (''actor'', JStr (actor_name s a))]"
  obtain r0 s4 where att: "attach (activity_id a) ?data ?s3 = (r0, s4)"
    by (cases "attach (activity_id a) ?data ?s3")
  from assms have "s' = s4"
    unfolding migrate_activity_success [OF Inr] att by (simp split: sum.splits)
  with attach_trace [OF att] show ?thesis by auto
qed



text \<open>
  C6. When the dataset of an activity is reconstructed and its Activity row does not pass
  the test of line 133, the loop body returns normally in every state, and the payload it
  attaches has under \<^verbatim>\<open>actor\<close> the name of the user with the activity's \<^verbatim>\<open>user_id\<close> if
  there is such a user and the \<^verbatim>\<open>user_id\<close> itself if there is none.
\<close>

theorem actor_fallback:
  assumes rec: "reconstruct_normalized env (ctx\<lparr>ctx_revision_id := Some (revision_id a)\<rparr>) a = Inr snap"
    and old: "activities (session s) (activity_id a) = Some old"
    and guard: "is_fully_migrated old = Inr False"
  shows "\<exists>s'. migrate_activity env ctx i n a s
                  = (Inr (ctx\<lparr>ctx_revision_id := Some (revision_id a)\<rparr>), s')
          \<and> activities (session s') (activity_id a)
               = Some (JDict [(''package'', snap),
                              (''actor'', JStr (case users (session s) (user_id a) of
                                                  Some name \<Rightarrow> name
                                                | None \<Rightarrow> user_id a))])"
proof -
  obtain r s' where b: "migrate_activity env ctx i n a s = (r, s')"
    by (cases "migrate_activity env ctx i n a s")
  from old guard have nm: "\<not> fully_migrated s (activity_id a)"
    by (simp add: fully_migrated_def)
  from b show ?thesis
  proof (cases rule: migrate_activity_cases)
    case (failed e)
    from b have "\<exists>es. trace s' = trace s @ es" by (rule migrate_activity_trace)
    have "r \<noteq> Inl e"
    proof
      assume "r = Inl e"
      let ?s3 = "emit (UserGet (user_id a))
              (emit (PackageShow (ctx\<lparr>ctx_revision_id := Some (revision_id a)\<rparr>) (object_id a) False)
                ((py_print (''  activity '' @ show_nat (i + 1) @ ''/'' @ show_nat n @ '' ''
                            @ timestamp a) s)
                   \<lparr>global_context := Some (ctx\<lparr>ctx_revision_id := Some (revision_id a)\<rparr>)\<rparr>))"
      have "attach (activity_id a) (JDict [(''package'', snap), (''actor'', JStr (actor_name s a))]) ?s3
          = (Inr (), assign_data (activity_id a)
               (JDict [(''package'', snap), (''actor'', JStr (actor_name s a))])
               (emit (ActivityGet (activity_id a)) ?s3))"
        using old guard by (simp add: attach_def Let_def)
      with b \<open>r = Inl e\<close> show False
        unfolding migrate_activity_success [OF rec] by simp
    qed
    with failed show ?thesis by simp
  next
    case (skipped snap')
    with nm show ?thesis by simp
  next
    case (assigned snap')
    with rec b show ?thesis by (simp add: actor_name_def)
  qed
qed

section \<open>Running twice\<close>

lemma migrate_activity_settled:
  assumes "migrate_activity env ctx i n a s = (r, s')" and "settled s"
  shows "settled s'"
  using assms(1)
proof (cases rule: migrate_activity_cases)
  case (failed e)
  with assms(2) migrate_activity_frame(1) [OF assms(1)] show ?thesis by (simp add: settled_def)
next
  case (skipped snap)
  with assms(2) migrate_activity_frame(1) [OF assms(1)] show ?thesis by (simp add: settled_def)
next
  case (assigned snap)
  then show ?thesis by (simp add: settled_def)
qed

lemma migrate_activities_settled:
  "migrate_activities env ctx i n acts s = (r, s') \<Longrightarrow> settled s \<Longrightarrow> settled s'"
proof (induction acts arbitrary: ctx i s)
  case Nil
  then show ?case by simp
next
  case (Cons a acts)
  obtain r1 s1 where b: "migrate_activity env ctx i n a s = (r1, s1)"
    by (cases "migrate_activity env ctx i n a s")
  note st = migrate_activity_settled [OF b Cons.prems(2)]
  show ?case
  proof (cases r1)
    case (Inl e)
    with Cons.prems b have "s' = s1" by simp
    with st show ?thesis by simp
  next
    case (Inr c)
    with Cons.prems b have "migrate_activities env c (i + 1) n acts s1 = (r, s')" by simp
    from Cons.IH [OF this st] show ?thesis .
  qed
qed

lemma get_context_success:
  assumes "migrate_dataset env name s = (Inr (), s')"
  obtains ctx s1 acts where "get_context env s = (Inr ctx, s1)"
    "package_activity_list env (ctx\<lparr>include_hidden_activity := Some True\<rparr>) name = Inr acts"
proof (cases "get_context env s")
  case (Pair r0 s1)
  show ?thesis
  proof (cases r0)
    case (Inl e)
    with assms Pair show ?thesis by (simp add: migrate_dataset_def)
  next
    case (Inr ctx)
    show ?thesis
    proof (cases "package_activity_list env (ctx\<lparr>include_hidden_activity := Some True\<rparr>) name")
      case (Inl e)
      with assms Pair Inr show ?thesis by (simp add: migrate_dataset_def Let_def)
    next
      case stream: (Inr acts)
      from Pair Inr have "get_context env s = (Inr ctx, s1)" by simp
      then show ?thesis using stream by (rule that)
    qed
  qed
qed

lemma get_context_same:
  assumes "global_context t = global_context s" and "get_context env s = (Inr ctx, s1)"
  shows "\<exists>t1. get_context env t = (Inr ctx, t1)"
  using assms by (auto simp: get_context_def Let_def split: option.splits sum.splits)

lemma migrate_dataset_keeps:
  assumes "migrate_dataset env name s = (Inr (), s')" and "fully_migrated s aid"
  shows "fully_migrated s' aid"
proof -
  from assms(1) obtain ctx s1 acts where g: "get_context env s = (Inr ctx, s1)"
    and stream: "package_activity_list env (ctx\<lparr>include_hidden_activity := Some True\<rparr>) name = Inr acts"
    by (rule get_context_success)
  from g stream assms(1) obtain c s5 where
    l: "migrate_activities env (ctx\<lparr>include_hidden_activity := Some True, for_view := Some False\<rparr>)
         0 (length acts) acts (loop_entry ctx name acts s1) = (Inr c, s5)"
    and s': "s' = py_print (''All '' @ show_nat (length acts) @ '' datasets are migrated'')
                   (commit_gate s5)"
    by (rule migrate_dataset_success)
  have e: "fully_migrated (loop_entry ctx name acts s1) aid"
    using assms(2) get_context_frame(1) [OF g] by (simp add: fully_migrated_def)
  from migrate_activities_keeps [OF l e] e have "fully_migrated s5 aid"
    by (simp add: fully_migrated_def)
  with s' show ?thesis by (simp add: fully_migrated_def)
qed

lemma migrate_dataset_settled:
  assumes "migrate_dataset env name s = (Inr (), s')" and "settled s"
  shows "dirty s' = {} \<and> session s' = committed s'"
proof -
  from assms(1) obtain ctx s1 acts where g: "get_context env s = (Inr ctx, s1)"
    and stream: "package_activity_list env (ctx\<lparr>include_hidden_activity := Some True\<rparr>) name = Inr acts"
    by (rule get_context_success)
  from g stream assms(1) obtain c s5 where
    l: "migrate_activities env (ctx\<lparr>include_hidden_activity := Some True, for_view := Some False\<rparr>)
         0 (length acts) acts (loop_entry ctx name acts s1) = (Inr c, s5)"
    and s': "s' = py_print (''All '' @ show_nat (length acts) @ '' datasets are migrated'')
                   (commit_gate s5)"
    by (rule migrate_dataset_success)
  have "settled (loop_entry ctx name acts s1)"
    using assms(2) get_context_frame(1-3) [OF g] by (simp add: settled_def)
  from migrate_activities_settled [OF l this] s' show ?thesis
    by (simp add: settled_def)
qed

lemma migrate_dataset_rerun:
  assumes run: "migrate_dataset env name s = (Inr (), s1)"
    and gc: "global_context t = global_context s"
    and sat: "\<forall>aid. fully_migrated s1 aid \<longrightarrow> fully_migrated t aid"
    and clean: "dirty t = {}"
  shows "\<exists>t1. migrate_dataset env name t = (Inr (), t1) \<and> session t1 = session t
           \<and> committed t1 = committed t \<and> dirty t1 = {} \<and> commits t1 = commits t
           \<and> mutations t1 = mutations t \<and> global_context t1 = global_context s1"
proof -
  let ?done = "\<lambda>acts. ''All '' @ show_nat (length acts) @ '' datasets are migrated''"
  from run obtain ctx s0 acts where g: "get_context env s = (Inr ctx, s0)"
    and stream: "package_activity_list env (ctx\<lparr>include_hidden_activity := Some True\<rparr>) name = Inr acts"
    by (rule get_context_success)
  let ?ctx2 = "ctx\<lparr>include_hidden_activity := Some True, for_view := Some False\<rparr>"
  from g stream run obtain c s5 where
    l: "migrate_activities env ?ctx2 0 (length acts) acts (loop_entry ctx name acts s0) = (Inr c, s5)"
    and s1: "s1 = py_print (?done acts) (commit_gate s5)"
    by (rule migrate_dataset_success)
  note suc = migrate_activities_success [OF l]
  from get_context_same [OF gc g] obtain t0 where gt: "get_context env t = (Inr ctx, t0)" ..
  note ft = get_context_frame [OF gt]
  have sess1: "session s1 = session s5" using s1 by simp
  have ready: "\<forall>a \<in> set acts. fully_migrated (loop_entry ctx name acts t0) (activity_id a)
      \<and> (\<exists>snap. reconstruct_normalized env (?ctx2\<lparr>ctx_revision_id := Some (revision_id a)\<rparr>) a
                   = Inr snap)"
  proof
    fix a
    assume a: "a \<in> set acts"
    with suc have "fully_migrated s5 (activity_id a)" by simp
    then have "fully_migrated s1 (activity_id a)"
      by (simp only: fully_migrated_session [OF sess1])
    with sat have "fully_migrated t (activity_id a)" by simp
    then have "fully_migrated (loop_entry ctx name acts t0) (activity_id a)"
      using ft(1) by (simp add: fully_migrated_def)
    with suc a show "fully_migrated (loop_entry ctx name acts t0) (activity_id a)
      \<and> (\<exists>snap. reconstruct_normalized env (?ctx2\<lparr>ctx_revision_id := Some (revision_id a)\<rparr>) a
                   = Inr snap)"
      by simp
  qed
  from migrate_activities_rerun [OF ready, of 0 "length acts"] obtain c' t5 where
    lt: "migrate_activities env ?ctx2 0 (length acts) acts (loop_entry ctx name acts t0) = (Inr c', t5)"
    and t5: "session t5 = session (loop_entry ctx name acts t0)"
      "dirty t5 = dirty (loop_entry ctx name acts t0)"
      "mutations t5 = mutations (loop_entry ctx name acts t0)"
    by blast
  note suct = migrate_activities_success [OF lt]
  note frt = migrate_activities_frame [OF lt]
  have c': "c' = c" using suc suct by simp
  have gs: "global_context s1 = Some c" using suc s1 by simp
  have gt5: "global_context t5 = Some c" using suct c' by simp
  have runt: "migrate_dataset env name t = (Inr (), py_print (?done acts) (commit_gate t5))"
    unfolding migrate_dataset_unfold [OF gt stream] lt by simp
  have d5: "dirty t5 = {}" using t5(2) ft(3) clean by simp
  have "session (py_print (?done acts) (commit_gate t5)) = session t"
    "committed (py_print (?done acts) (commit_gate t5)) = committed t"
    "dirty (py_print (?done acts) (commit_gate t5)) = {}"
    "commits (py_print (?done acts) (commit_gate t5)) = commits t"
    "mutations (py_print (?done acts) (commit_gate t5)) = mutations t"
    "global_context (py_print (?done acts) (commit_gate t5)) = global_context s1"
    using t5 d5 ft frt gs gt5 by simp_all
  with runt show ?thesis by blast
qed

text \<open>The loop over the datasets.\<close>

lemma migrate_names_keeps:
  "migrate_names env i n names s = (Inr (), s') \<Longrightarrow> fully_migrated s aid \<Longrightarrow> fully_migrated s' aid"
proof (induction names arbitrary: i s)
  case Nil
  then show ?case by simp
next
  case (Cons name names)
  let ?sp = "py_print (show_nat (i + 1) @ ''/'' @ show_nat n @ '' '' @ name) s"
  obtain r1 s1 where d: "migrate_dataset env name ?sp = (r1, s1)"
    by (cases "migrate_dataset env name ?sp")
  with Cons.prems(1) have r1: "r1 = Inr ()"
    and rest: "migrate_names env (i + 1) n names s1 = (Inr (), s')"
    by (cases r1; simp)+
  from Cons.prems(2) have "fully_migrated ?sp aid" by (simp add: fully_migrated_def)
  with d r1 have "fully_migrated s1 aid" by (simp add: migrate_dataset_keeps)
  with rest show ?case by (rule Cons.IH)
qed

lemma migrate_names_settled:
  "migrate_names env i n names s = (Inr (), s') \<Longrightarrow> dirty s = {} \<and> session s = committed s \<Longrightarrow>
   dirty s' = {} \<and> session s' = committed s'"
proof (induction names arbitrary: i s)
  case Nil
  then show ?case by simp
next
  case (Cons name names)
  let ?sp = "py_print (show_nat (i + 1) @ ''/'' @ show_nat n @ '' '' @ name) s"
  obtain r1 s1 where d: "migrate_dataset env name ?sp = (r1, s1)"
    by (cases "migrate_dataset env name ?sp")
  with Cons.prems(1) have r1: "r1 = Inr ()"
    and rest: "migrate_names env (i + 1) n names s1 = (Inr (), s')"
    by (cases r1; simp)+
  from Cons.prems(2) have "settled ?sp" by (simp add: settled_def)
  with d r1 have "dirty s1 = {} \<and> session s1 = committed s1"
    by (simp add: migrate_dataset_settled)
  with rest show ?case by (rule Cons.IH)
qed

lemma migrate_names_rerun:
  "migrate_names env i n names s = (Inr (), s1) \<Longrightarrow>
   global_context t = global_context s \<Longrightarrow>
   \<forall>aid. fully_migrated s1 aid \<longrightarrow> fully_migrated t aid \<Longrightarrow>
   dirty t = {} \<Longrightarrow>
   \<exists>t1. migrate_names env i n names t = (Inr (), t1) \<and> session t1 = session t
      \<and> committed t1 = committed t \<and> dirty t1 = {} \<and> commits t1 = commits t
      \<and> mutations t1 = mutations t"
proof (induction names arbitrary: i s t)
  case Nil
  then show ?case by simp
next
  case (Cons name names)
  let ?line = "show_nat (i + 1) @ ''/'' @ show_nat n @ '' '' @ name"
  obtain r2 s2 where d: "migrate_dataset env name (py_print ?line s) = (r2, s2)"
    by (cases "migrate_dataset env name (py_print ?line s)")
  with Cons.prems(1) have r2: "r2 = Inr ()"
    and rest: "migrate_names env (i + 1) n names s2 = (Inr (), s1)"
    by (cases r2; simp)+
  from d r2 have run: "migrate_dataset env name (py_print ?line s) = (Inr (), s2)" by simp
  have gc: "global_context (py_print ?line t) = global_context (py_print ?line s)"
    using Cons.prems(2) by simp
  have sat: "\<forall>aid. fully_migrated s2 aid \<longrightarrow> fully_migrated (py_print ?line t) aid"
  proof (intro allI impI)
    fix aid
    assume "fully_migrated s2 aid"
    with rest have "fully_migrated s1 aid" by (rule migrate_names_keeps)
    with Cons.prems(3) show "fully_migrated (py_print ?line t) aid"
      by (simp add: fully_migrated_def)
  qed
  have clean: "dirty (py_print ?line t) = {}" using Cons.prems(4) by simp
  from migrate_dataset_rerun [OF run gc sat clean] obtain t2 where
    runt: "migrate_dataset env name (py_print ?line t) = (Inr (), t2)"
    and t2: "session t2 = session t" "committed t2 = committed t" "dirty t2 = {}"
      "commits t2 = commits t" "mutations t2 = mutations t" "global_context t2 = global_context s2"
    by auto
  have sat2: "\<forall>aid. fully_migrated s1 aid \<longrightarrow> fully_migrated t2 aid"
    using Cons.prems(3) t2(1) by (simp add: fully_migrated_def)
  from Cons.IH [OF rest t2(6) sat2 t2(3)] obtain t1 where
    "migrate_names env (i + 1) n names t2 = (Inr (), t1)" "session t1 = session t2"
    "committed t1 = committed t2" "dirty t1 = {}" "commits t1 = commits t2"
    "mutations t1 = mutations t2"
    by blast
  with runt t2 show ?case by simp
qed

text \<open>
  C2. Run the full migration in a fresh process on any database and, once it has returned,
  run it again in a fresh process on the tables it committed: the second run returns as
  well, assigns no payload, commits nothing, and the committed tables are those the first
  run left.
\<close>

theorem migration_idempotent:
  assumes run: "migrate_all_datasets env (fresh_process db input) = (Inr (), s1)"
  shows "\<exists>s2. migrate_all_datasets env (fresh_process (committed s1) input') = (Inr (), s2)
          \<and> committed s2 = committed s1 \<and> session s2 = committed s1
          \<and> mutations s2 = 0 \<and> commits s2 = 0"
proof -
  let ?s = "fresh_process db input" and ?t = "fresh_process (committed s1) input'"
  obtain r0 sa where g: "get_context env ?s = (r0, sa)" by (cases "get_context env ?s")
  with run obtain ctx where r0: "r0 = Inr ctx"
    by (cases r0) (simp_all add: migrate_all_datasets_def)
  from g r0 have g': "get_context env ?s = (Inr ctx, sa)" by simp
  have "global_context ?t = global_context ?s" by (simp add: fresh_process_def)
  from get_context_same [OF this g'] obtain ta where gt: "get_context env ?t = (Inr ctx, ta)" ..
  from run g' obtain names where names: "package_list env ctx = Inr names"
    and loop: "migrate_names env 0 (length names) names (emit (PackageList ctx) sa) = (Inr (), s1)"
    by (cases "package_list env ctx") (simp_all add: migrate_all_datasets_def Let_def)
  note fs = get_context_frame [OF g'] and ft = get_context_frame [OF gt]
  have "dirty (emit (PackageList ctx) sa) = {}
      \<and> session (emit (PackageList ctx) sa) = committed (emit (PackageList ctx) sa)"
    using fs by (simp add: fresh_process_def)
  from migrate_names_settled [OF loop this] have end1: "dirty s1 = {}" "session s1 = committed s1"
    by simp_all
  have gc: "global_context (emit (PackageList ctx) ta) = global_context (emit (PackageList ctx) sa)"
    using fs(8) ft(8) by simp
  have st: "session (emit (PackageList ctx) ta) = committed s1"
    "committed (emit (PackageList ctx) ta) = committed s1"
    using ft by (simp_all add: fresh_process_def)
  have sat: "\<forall>aid. fully_migrated s1 aid \<longrightarrow> fully_migrated (emit (PackageList ctx) ta) aid"
    using st(1) end1(2) by (simp add: fully_migrated_def)
  have clean: "dirty (emit (PackageList ctx) ta) = {}"
    using ft by (simp add: fresh_process_def)
  have zero: "commits (emit (PackageList ctx) ta) = 0" "mutations (emit (PackageList ctx) ta) = 0"
    using ft(5,6) by (simp_all add: commits_def mutations_def occurrences_def fresh_process_def)
  from migrate_names_rerun [OF loop gc sat clean] obtain s2 where
    "migrate_names env 0 (length names) names (emit (PackageList ctx) ta) = (Inr (), s2)"
    "session s2 = session (emit (PackageList ctx) ta)"
    "committed s2 = committed (emit (PackageList ctx) ta)"
    "commits s2 = commits (emit (PackageList ctx) ta)"
    "mutations s2 = mutations (emit (PackageList ctx) ta)"
    by blast
  moreover have "migrate_all_datasets env ?t
      = migrate_names env 0 (length names) names (emit (PackageList ctx) ta)"
    using gt names by (simp add: migrate_all_datasets_def Let_def)
  ultimately show ?thesis using st zero by simp
qed

section \<open>Returning runs and the attachment guard\<close>

lemma fully_migrated_readable: "fully_migrated s aid \<Longrightarrow> readable s aid"
  by (auto simp: fully_migrated_def readable_def split: option.splits)

lemma attach_total:
  assumes "readable s aid"
  shows "\<exists>s'. attach aid data s = (Inr (), s')"
  using assms
  by (auto simp: attach_def readable_def Let_def split: option.splits sum.splits)

lemma migrate_activity_total:
  assumes "readable s (activity_id a)"
    and "reconstruct_normalized env (ctx\<lparr>ctx_revision_id := Some (revision_id a)\<rparr>) a = Inr snap"
  shows "\<exists>s'. migrate_activity env ctx i n a s
                 = (Inr (ctx\<lparr>ctx_revision_id := Some (revision_id a)\<rparr>), s')"
proof -
  let ?s3 = "emit (UserGet (user_id a))
              (emit (PackageShow (ctx\<lparr>ctx_revision_id := Some (revision_id a)\<rparr>) (object_id a) False)
                ((py_print (''  activity '' @ show_nat (i + 1) @ ''/'' @ show_nat n @ '' ''
                            @ timestamp a) s)
                   \<lparr>global_context := Some (ctx\<lparr>ctx_revision_id := Some (revision_id a)\<rparr>)\<rparr>))"
  have "readable ?s3 (activity_id a)" using assms(1) by (simp add: readable_def)
  from attach_total [OF this] obtain s' where
    "attach (activity_id a) (JDict [(''package'', snap), (''actor'', JStr (actor_name s a))]) ?s3
       = (Inr (), s')" ..
  then show ?thesis unfolding migrate_activity_success [OF assms(2)] by simp
qed

lemma migrate_activity_readable:
  assumes "migrate_activity env ctx i n a s = (r, s')" and "readable s b"
  shows "readable s' b"
proof (cases "b = activity_id a")
  case True
  from assms(1) show ?thesis
  proof (cases rule: migrate_activity_cases)
    case (failed e)
    with assms(2) show ?thesis by (simp add: readable_def)
  next
    case (skipped snap)
    with assms(2) show ?thesis by (simp add: readable_def)
  next
    case (assigned snap)
    with True show ?thesis by (simp add: readable_def snapshot_fully_migrated)
  qed
next
  case False
  from migrate_activity_other [OF assms(1) False] assms(2) show ?thesis
    by (simp add: readable_def)
qed

lemma migrate_activities_total:
  "\<forall>a \<in> set acts. readable s (activity_id a)
      \<and> (\<exists>snap. reconstruct_normalized env (ctx\<lparr>ctx_revision_id := Some (revision_id a)\<rparr>) a
                   = Inr snap) \<Longrightarrow>
   \<exists>c s'. migrate_activities env ctx i n acts s = (Inr c, s')"
proof (induction acts arbitrary: ctx i s)
  case Nil
  then show ?case by simp
next
  case (Cons a acts)
  let ?ctx = "ctx\<lparr>ctx_revision_id := Some (revision_id a)\<rparr>"
  from Cons.prems obtain snap where rd: "readable s (activity_id a)"
    and rec: "reconstruct_normalized env ?ctx a = Inr snap"
    by auto
  from migrate_activity_total [OF rd rec] obtain s1 where
    b: "migrate_activity env ctx i n a s = (Inr ?ctx, s1)" ..
  have "\<forall>b \<in> set acts. readable s1 (activity_id b)
      \<and> (\<exists>snap. reconstruct_normalized env (?ctx\<lparr>ctx_revision_id := Some (revision_id b)\<rparr>) b
                   = Inr snap)"
    using Cons.prems migrate_activity_readable [OF b] by simp
  from Cons.IH [OF this, of "i + 1"] b show ?case by simp
qed

lemma migrate_dataset_total:
  assumes g: "get_context env s = (Inr ctx, s1)"
    and stream: "package_activity_list env (ctx\<lparr>include_hidden_activity := Some True\<rparr>) name = Inr acts"
    and ready: "\<forall>a \<in> set acts. readable s (activity_id a)
      \<and> (\<exists>snap. reconstruct_normalized env
                   (ctx\<lparr>include_hidden_activity := Some True, for_view := Some False,
                        ctx_revision_id := Some (revision_id a)\<rparr>) a = Inr snap)"
  shows "\<exists>s'. migrate_dataset env name s = (Inr (), s')"
proof -
  let ?ctx2 = "ctx\<lparr>include_hidden_activity := Some True, for_view := Some False\<rparr>"
  have "\<forall>a \<in> set acts. readable (loop_entry ctx name acts s1) (activity_id a)
      \<and> (\<exists>snap. reconstruct_normalized env (?ctx2\<lparr>ctx_revision_id := Some (revision_id a)\<rparr>) a
                   = Inr snap)"
    using ready get_context_frame(1) [OF g] by (simp add: readable_def)
  from migrate_activities_total [OF this, of 0 "length acts"] obtain c s5 where
    "migrate_activities env ?ctx2 0 (length acts) acts (loop_entry ctx name acts s1) = (Inr c, s5)"
    by blast
  then show ?thesis unfolding migrate_dataset_unfold [OF g stream] by simp
qed

lemma migrate_dataset_skips:
  assumes g: "get_context env s = (Inr ctx, s1)"
    and stream: "package_activity_list env (ctx\<lparr>include_hidden_activity := Some True\<rparr>) name = Inr acts"
    and ready: "\<forall>a \<in> set acts. fully_migrated s (activity_id a)
      \<and> (\<exists>snap. reconstruct_normalized env
                   (ctx\<lparr>include_hidden_activity := Some True, for_view := Some False,
                        ctx_revision_id := Some (revision_id a)\<rparr>) a = Inr snap)"
  shows "\<exists>s'. migrate_dataset env name s = (Inr (), s') \<and> session s' = session s
           \<and> mutations s' = mutations s"
proof -
  let ?ctx2 = "ctx\<lparr>include_hidden_activity := Some True, for_view := Some False\<rparr>"
  note gc = get_context_frame [OF g]
  have "\<forall>a \<in> set acts. fully_migrated (loop_entry ctx name acts s1) (activity_id a)
      \<and> (\<exists>snap. reconstruct_normalized env (?ctx2\<lparr>ctx_revision_id := Some (revision_id a)\<rparr>) a
                   = Inr snap)"
    using ready gc(1) by (simp add: fully_migrated_def)
  from migrate_activities_rerun [OF this, of 0 "length acts"] obtain c s5 where
    l: "migrate_activities env ?ctx2 0 (length acts) acts (loop_entry ctx name acts s1) = (Inr c, s5)"
    and s5: "session s5 = session (loop_entry ctx name acts s1)"
      "mutations s5 = mutations (loop_entry ctx name acts s1)"
    by blast
  have "migrate_dataset env name s
      = (Inr (), py_print (''All '' @ show_nat (length acts) @ '' datasets are migrated'')
                   (commit_gate s5))"
    unfolding migrate_dataset_unfold [OF g stream] l by simp
  with s5 gc show ?thesis by simp
qed

text \<open>
  C1 (as amended). For an Activity whose data is a dict with no \<^verbatim>\<open>package\<close> entry or
  with a dict under it, the test of line 133 holds exactly when that dict has the key
  \<^verbatim>\<open>resources\<close>, whatever is stored under the key, an empty list included. When it does
  not hold, the data is replaced by the new payload (one mutation); when it holds, the
  data is kept as it is (no mutation).
\<close>

theorem attachment_guard_tests_key_presence:
  assumes old: "activities (session s) aid = Some (JDict payload)"
    and shape: "map_of payload ''package'' = None
              \<or> (\<exists>fields. map_of payload ''package'' = Some (JDict fields))"
  shows "is_fully_migrated (JDict payload)
           = Inr (\<exists>fields. map_of payload ''package'' = Some (JDict fields)
                           \<and> ''resources'' \<in> fst ` set fields)
       \<and> (\<exists>s'. attach aid data s = (Inr (), s')
              \<and> activities (session s') aid
                   = Some (if \<exists>fields. map_of payload ''package'' = Some (JDict fields)
                                       \<and> ''resources'' \<in> fst ` set fields
                           then JDict payload else data)
              \<and> mutations s'
                   = mutations s + (if \<exists>fields. map_of payload ''package'' = Some (JDict fields)
                                               \<and> ''resources'' \<in> fst ` set fields
                                    then 0 else 1))"
proof -
  define G where "G \<longleftrightarrow> (\<exists>fields. map_of payload ''package'' = Some (JDict fields)
                                  \<and> ''resources'' \<in> fst ` set fields)"
  have guard: "is_fully_migrated (JDict payload) = Inr G"
    using shape unfolding G_def by (auto simp: is_fully_migrated_def)
  have fm: "fully_migrated s aid = G"
    using old guard by (simp add: fully_migrated_def)
  obtain r s' where att: "attach aid data s = (r, s')" by (cases "attach aid data s")
  from att have "r = Inr ()
      \<and> activities (session s') aid = Some (if G then JDict payload else data)
      \<and> mutations s' = mutations s + (if G then 0 else 1)"
  proof (cases rule: attach_cases)
    case (error e)
    from old guard have "readable s aid" by (simp add: readable_def)
    from attach_total [OF this, of data] att error(1) show ?thesis by simp
  next
    case skipped
    from skipped(2) fm have G by simp
    with skipped old show ?thesis by simp
  next
    case assigned
    from assigned(2) fm have "\<not> G" by simp
    with assigned show ?thesis by simp
  qed
  with att guard show ?thesis unfolding G_def by blast
qed

section \<open>Concrete runs\<close>

text \<open>Evaluation of the concrete catalogue.\<close>

lemma get_context_catalogue:
  "get_context (catalogue acts) (fresh_process db inp)
     = (Inr site_context, (emit GetSiteUser (fresh_process db inp))\<lparr>global_context := Some site_context\<rparr>)"
  by (simp add: get_context_def catalogue_def fresh_process_def site_context_def Let_def)

lemma stream_catalogue:
  "package_activity_list (catalogue acts) (site_context\<lparr>include_hidden_activity := Some True\<rparr>) ''ds''
     = Inr acts"
  by (simp add: catalogue_def)

lemma package_show_catalogue:
  "package_show (catalogue acts) (ctx\<lparr>ctx_revision_id := Some marker\<rparr>) pid tracking
     = (if marker = ''gone'' then Inl NotFound else Inr (dataset_at marker))"
  by (simp add: catalogue_def)

lemma normalize_dataset_at: "normalize (dataset_at marker) = Inr (snapshot_at marker)"
  by (simp add: dataset_at_def snapshot_at_def normalize_def strip_organization_def
      strip_dataset_resources_def py_or_def setitem_def AList.delete_eq)

lemma reconstruct_catalogue:
  "reconstruct_normalized (catalogue acts) (ctx\<lparr>ctx_revision_id := Some marker\<rparr>) a
     = (if marker = ''gone'' then Inl NotFound else Inr (snapshot_at marker))"
  by (simp add: reconstruct_normalized_def package_show_catalogue normalize_dataset_at)

lemma fresh_counts:
  "mutations (fresh_process db inp) = 0" "commits (fresh_process db inp) = 0"
  "reconstructions (fresh_process db inp) = 0"
  by (simp_all add: mutations_def commits_def reconstructions_def occurrences_def fresh_process_def)

lemma guard_payloads:
  "is_fully_migrated legacy_payload = Inr False"
  "is_fully_migrated empty_resources_payload = Inr True"
  "is_fully_migrated migrated_payload = Inr True"
  by (simp_all add: is_fully_migrated_def legacy_payload_def empty_resources_payload_def
      migrated_payload_def)



text \<open>
  C6 on an activity of the unknown user \<open>U-missing\<close> and on one of the known user \<open>u1\<close>.
\<close>

theorem actor_fallback_witness:
  "fst (migrate_activity (catalogue []) site_context 0 1 (event ''a1'' ''r1'' ''U-missing'')
         (fresh_process (one_db legacy_payload) []))
     = Inr (site_context\<lparr>ctx_revision_id := Some ''r1''\<rparr>)
   \<and> activities (session (snd (migrate_activity (catalogue []) site_context 0 1
         (event ''a1'' ''r1'' ''U-missing'') (fresh_process (one_db legacy_payload) [])))) ''a1''
     = Some (JDict [(''package'', snapshot_at ''r1''), (''actor'', JStr ''U-missing'')])
   \<and> activities (session (snd (migrate_activity (catalogue []) site_context 0 1
         (event ''a1'' ''r1'' ''u1'') (fresh_process (one_db legacy_payload) [])))) ''a1''
     = Some (JDict [(''package'', snapshot_at ''r1''), (''actor'', JStr ''alice'')])"
proof -
  let ?s = "fresh_process (one_db legacy_payload) []"
  have rec: "reconstruct_normalized (catalogue [])
      (site_context\<lparr>ctx_revision_id := Some (revision_id (event ''a1'' ''r1'' uid))\<rparr>)
      (event ''a1'' ''r1'' uid) = Inr (snapshot_at ''r1'')" for uid
    by (simp add: reconstruct_catalogue event_def)
  have old: "activities (session ?s) (activity_id (event ''a1'' ''r1'' uid)) = Some legacy_payload"
    for uid
    by (simp add: fresh_process_def one_db_def event_def)
  have ids: "activity_id (event ''a1'' ''r1'' uid) = ''a1''"
    "revision_id (event ''a1'' ''r1'' uid) = ''r1''" "user_id (event ''a1'' ''r1'' uid) = uid" for uid
    by (simp_all add: event_def)
  have users: "users (session ?s) ''U-missing'' = None" "users (session ?s) ''u1'' = Some ''alice''"
    by (simp_all add: fresh_process_def one_db_def)
  from actor_fallback [OF rec [of "''U-missing''"] old guard_payloads(1), where i = 0 and n = 1]
  obtain s' where "migrate_activity (catalogue []) site_context 0 1 (event ''a1'' ''r1'' ''U-missing'') ?s
      = (Inr (site_context\<lparr>ctx_revision_id := Some ''r1''\<rparr>), s')"
    "activities (session s') ''a1''
      = Some (JDict [(''package'', snapshot_at ''r1''), (''actor'', JStr ''U-missing'')])"
    by (auto simp: ids users)
  moreover
  from actor_fallback [OF rec [of "''u1''"] old guard_payloads(1), where i = 0 and n = 1]
  obtain s'' where "migrate_activity (catalogue []) site_context 0 1 (event ''a1'' ''r1'' ''u1'') ?s
      = (Inr (site_context\<lparr>ctx_revision_id := Some ''r1''\<rparr>), s'')"
    "activities (session s'') ''a1''
      = Some (JDict [(''package'', snapshot_at ''r1''), (''actor'', JStr ''alice'')])"
    by (auto simp: ids users)
  ultimately show ?thesis by simp
qed

text \<open>C7 on a dataset without activities, in a fresh process.\<close>

theorem empty_dataset_is_noop_witness:
  "fst (migrate_dataset (catalogue []) ''ds'' (fresh_process five_db [])) = Inr ()
   \<and> reconstructions (snd (migrate_dataset (catalogue []) ''ds'' (fresh_process five_db []))) = 0
   \<and> commits (snd (migrate_dataset (catalogue []) ''ds'' (fresh_process five_db []))) = 0
   \<and> trace (snd (migrate_dataset (catalogue []) ''ds'' (fresh_process five_db [])))
       = [GetSiteUser,
          PackageActivityList (site_context\<lparr>include_hidden_activity := Some True\<rparr>) ''ds'',
          Printed ''  No activities'', Printed ''All 0 datasets are migrated'']"
proof -
  have clean: "dirty (fresh_process five_db []) = {}" by (simp add: fresh_process_def)
  from empty_dataset_is_noop [OF get_context_catalogue stream_catalogue clean]
  obtain s' where run: "migrate_dataset (catalogue []) ''ds'' (fresh_process five_db []) = (Inr (), s')"
    and "reconstructions s' = 0" "commits s' = 0"
    and "trace s' = trace ((emit GetSiteUser (fresh_process five_db []))
                            \<lparr>global_context := Some site_context\<rparr>) @
           [PackageActivityList (site_context\<lparr>include_hidden_activity := Some True\<rparr>) ''ds'',
            Printed ''  No activities'', Printed ''All 0 datasets are migrated'']"
    by (auto simp: fresh_counts)
  moreover have "trace ((emit GetSiteUser (fresh_process five_db []))
                            \<lparr>global_context := Some site_context\<rparr>) = [GetSiteUser]"
    by (simp add: fresh_process_def)
  ultimately show ?thesis by simp
qed

text \<open>
  C9 on one activity that is already migrated: when its revision is gone, the call raises
  \<open>NotFound\<close> and commits nothing; when its revision is there, the call returns after one
  call of \<^verbatim>\<open>package_show\<close>.
\<close>

theorem reconstruction_precedes_guard_witness:
  "fully_migrated (fresh_process (one_db migrated_payload) []) ''a1''
   \<and> fst (migrate_dataset (catalogue [event ''a1'' ''gone'' ''u1'']) ''ds''
            (fresh_process (one_db migrated_payload) [])) = Inl NotFound
   \<and> commits (snd (migrate_dataset (catalogue [event ''a1'' ''gone'' ''u1'']) ''ds''
            (fresh_process (one_db migrated_payload) []))) = 0
   \<and> fst (migrate_dataset (catalogue [event ''a1'' ''r1'' ''u1'']) ''ds''
            (fresh_process (one_db migrated_payload) [])) = Inr ()
   \<and> reconstructions (snd (migrate_dataset (catalogue [event ''a1'' ''r1'' ''u1'']) ''ds''
            (fresh_process (one_db migrated_payload) []))) = 1"
proof -
  let ?s = "fresh_process (one_db migrated_payload) []"
  let ?gone = "event ''a1'' ''gone'' ''u1''" and ?ok = "event ''a1'' ''r1'' ''u1''"
  let ?s1 = "(emit GetSiteUser ?s)\<lparr>global_context := Some site_context\<rparr>"
  let ?ctx2 = "site_context\<lparr>include_hidden_activity := Some True, for_view := Some False\<rparr>"
  have fm: "fully_migrated ?s ''a1''"
    by (simp add: fully_migrated_def fresh_process_def one_db_def guard_payloads)
  have nf: "package_show (catalogue [?gone])
      (?ctx2\<lparr>ctx_revision_id := Some (revision_id ?gone)\<rparr>) (object_id ?gone) False = Inl NotFound"
    by (simp add: package_show_catalogue event_def)
  have nf': "reconstruct_normalized (catalogue [?gone])
      (?ctx2\<lparr>ctx_revision_id := Some (revision_id ?gone)\<rparr>) ?gone = Inl NotFound"
    by (simp add: reconstruct_catalogue event_def)
  note shown = reconstruction_precedes_guard
    [OF get_context_catalogue [of "[?gone]" "one_db migrated_payload" "[]"]
        stream_catalogue [of "[?gone]"]]
  from shown nf' obtain t' where
    body: "migrate_activity (catalogue [?gone]) ?ctx2 0 (length [?gone]) ?gone
             (loop_entry site_context ''ds'' [?gone] ?s1) = (Inl NotFound, t')"
    by blast
  have loop: "migrate_activities (catalogue [?gone]) ?ctx2 0 (length [?gone]) [?gone]
             (loop_entry site_context ''ds'' [?gone] ?s1) = (Inl NotFound, t')"
    by (simp only: migrate_activities.simps body prod.case sum.case)
  have gone: "fst (migrate_dataset (catalogue [?gone]) ''ds'' ?s) = Inl NotFound"
    unfolding migrate_dataset_unfold [OF get_context_catalogue stream_catalogue] loop
    by simp
  from shown nf obtain e' s' where
    "migrate_dataset (catalogue [?gone]) ''ds'' ?s = (Inl e', s')" "commits s' = commits ?s"
    by auto
  then have c: "commits (snd (migrate_dataset (catalogue [?gone]) ''ds'' ?s)) = 0"
    by (simp add: fresh_counts)
  have ready: "\<forall>a \<in> set [?ok]. readable ?s (activity_id a)
      \<and> (\<exists>snap. reconstruct_normalized (catalogue [?ok])
                   (?ctx2\<lparr>ctx_revision_id := Some (revision_id a)\<rparr>) a = Inr snap)"
    using fm by (simp add: fully_migrated_readable event_def reconstruct_catalogue)
  from migrate_dataset_total [OF get_context_catalogue stream_catalogue ready] obtain s'' where
    run: "migrate_dataset (catalogue [?ok]) ''ds'' ?s = (Inr (), s'')" ..
  from reconstruction_precedes_guard
    [OF get_context_catalogue [of "[?ok]" "one_db migrated_payload" "[]"]
        stream_catalogue [of "[?ok]"]] run
  have "reconstructions s'' = 1" by (simp add: fresh_counts)
  with run fm gone c show ?thesis by simp
qed

text \<open>
  C1 (as amended) on a payload whose \<^verbatim>\<open>resources\<close> list is empty, which is kept, and on
  a payload without the key, which is replaced.
\<close>

theorem attachment_guard_tests_key_presence_witness:
  "is_fully_migrated empty_resources_payload = Inr True
   \<and> activities (session (snd (attach ''a1'' (JDict []) (fresh_process (one_db empty_resources_payload) []))))
       ''a1'' = Some empty_resources_payload
   \<and> is_fully_migrated legacy_payload = Inr False
   \<and> activities (session (snd (attach ''a1'' (JDict []) (fresh_process (one_db legacy_payload) []))))
       ''a1'' = Some (JDict [])"
proof -
  have old: "activities (session (fresh_process (one_db (JDict payload)) [])) ''a1''
      = Some (JDict payload)" for payload
    by (simp add: fresh_process_def one_db_def)
  have s1: "map_of [(''package'', JDict [(''name'', JStr ''ds''), (''resources'', JList [])]),
                    (''actor'', JStr ''alice'')] ''package'' = None
      \<or> (\<exists>fields. map_of [(''package'', JDict [(''name'', JStr ''ds''), (''resources'', JList [])]),
                    (''actor'', JStr ''alice'')] ''package'' = Some (JDict fields))"
    by simp
  have s2: "map_of [(''package'', JDict [(''name'', JStr ''ds'')]), (''actor'', JStr ''alice'')]
        ''package'' = None
      \<or> (\<exists>fields. map_of [(''package'', JDict [(''name'', JStr ''ds'')]), (''actor'', JStr ''alice'')]
        ''package'' = Some (JDict fields))"
    by simp
  from attachment_guard_tests_key_presence [OF old s1, where data = "JDict []"]
    attachment_guard_tests_key_presence [OF old s2, where data = "JDict []"]
  show ?thesis
    by (auto simp: empty_resources_payload_def legacy_payload_def)
qed

text \<open>
  C1 (as stated) fails: an activity whose stored payload has an empty \<^verbatim>\<open>resources\<close> list
  under \<^verbatim>\<open>package\<close> passes the test of line 133, and a run of \<^verbatim>\<open>migrate_dataset\<close> leaves
  its payload as it is and assigns nothing.
\<close>

theorem empty_resources_payload_is_kept:
  "is_fully_migrated empty_resources_payload = Inr True
   \<and> fst (migrate_dataset (catalogue [event ''a1'' ''r1'' ''u1'']) ''ds''
            (fresh_process (one_db empty_resources_payload) [])) = Inr ()
   \<and> activities (session (snd (migrate_dataset (catalogue [event ''a1'' ''r1'' ''u1'']) ''ds''
            (fresh_process (one_db empty_resources_payload) [])))) ''a1''
       = Some empty_resources_payload
   \<and> mutations (snd (migrate_dataset (catalogue [event ''a1'' ''r1'' ''u1'']) ''ds''
            (fresh_process (one_db empty_resources_payload) []))) = 0"
proof -
  let ?s = "fresh_process (one_db empty_resources_payload) []"
  let ?ok = "event ''a1'' ''r1'' ''u1''"
  have ready: "\<forall>a \<in> set [?ok]. fully_migrated ?s (activity_id a)
      \<and> (\<exists>snap. reconstruct_normalized (catalogue [?ok])
                   (site_context\<lparr>include_hidden_activity := Some True, for_view := Some False,
                        ctx_revision_id := Some (revision_id a)\<rparr>) a = Inr snap)"
    by (simp add: fully_migrated_def fresh_process_def one_db_def guard_payloads event_def
        reconstruct_catalogue)
  from migrate_dataset_skips [OF get_context_catalogue stream_catalogue ready] obtain s' where
    "migrate_dataset (catalogue [?ok]) ''ds'' ?s = (Inr (), s')" "session s' = session ?s"
    "mutations s' = mutations ?s"
    by blast
  then show ?thesis
    by (simp add: guard_payloads fresh_counts) (simp add: fresh_process_def one_db_def)
qed

text \<open>C2 on the five activities: the second run of the full migration changes nothing.\<close>

lemma package_list_catalogue: "package_list (catalogue acts) ctx = Inr [''ds'']"
  by (simp add: catalogue_def)

lemma migrate_all_catalogue_total:
  assumes "\<forall>a \<in> set acts. readable (fresh_process db inp) (activity_id a) \<and> revision_id a \<noteq> ''gone''"
  shows "\<exists>s'. migrate_all_datasets (catalogue acts) (fresh_process db inp) = (Inr (), s')"
proof -
  let ?s1 = "(emit GetSiteUser (fresh_process db inp))\<lparr>global_context := Some site_context\<rparr>"
  let ?t0 = "py_print (show_nat (0 + 1) @ ''/'' @ show_nat (length [''ds'']) @ '' '' @ ''ds'')
               (emit (PackageList site_context) ?s1)"
  have g0: "get_context (catalogue acts) ?t0 = (Inr site_context, ?t0)"
    by (simp add: get_context_def)
  have ready: "\<forall>a \<in> set acts. readable ?t0 (activity_id a)
      \<and> (\<exists>snap. reconstruct_normalized (catalogue acts)
                   (site_context\<lparr>include_hidden_activity := Some True, for_view := Some False,
                        ctx_revision_id := Some (revision_id a)\<rparr>) a = Inr snap)"
    using assms by (simp add: readable_def reconstruct_catalogue)
  from migrate_dataset_total [OF g0 stream_catalogue ready] obtain s' where
    run: "migrate_dataset (catalogue acts) ''ds'' ?t0 = (Inr (), s')" ..
  have "migrate_all_datasets (catalogue acts) (fresh_process db inp)
      = migrate_names (catalogue acts) 0 (length [''ds'']) [''ds''] (emit (PackageList site_context) ?s1)"
    by (simp add: migrate_all_datasets_def get_context_catalogue package_list_catalogue Let_def)
  also have "\<dots> = (Inr (), s')"
    by (simp only: migrate_names.simps run prod.case sum.case)
  finally show ?thesis by blast
qed

theorem migration_idempotent_witness:
  "fst (migrate_all_datasets (catalogue five_events) (fresh_process five_db [])) = Inr ()
   \<and> fst (migrate_all_datasets (catalogue five_events)
            (fresh_process
               (committed (snd (migrate_all_datasets (catalogue five_events) (fresh_process five_db []))))
               [])) = Inr ()
   \<and> commits (snd (migrate_all_datasets (catalogue five_events)
            (fresh_process
               (committed (snd (migrate_all_datasets (catalogue five_events) (fresh_process five_db []))))
               []))) = 0
   \<and> committed (snd (migrate_all_datasets (catalogue five_events)
            (fresh_process
               (committed (snd (migrate_all_datasets (catalogue five_events) (fresh_process five_db []))))
               [])))
       = committed (snd (migrate_all_datasets (catalogue five_events) (fresh_process five_db [])))"
proof -
  have "\<forall>a \<in> set five_events. readable (fresh_process five_db []) (activity_id a)
      \<and> revision_id a \<noteq> ''gone''"
    by (simp add: five_events_def event_def readable_def fresh_process_def five_db_def
        guard_payloads)
  from migrate_all_catalogue_total [OF this] obtain s1 where
    run1: "migrate_all_datasets (catalogue five_events) (fresh_process five_db []) = (Inr (), s1)" ..
  from migration_idempotent [OF run1, of "[]"] obtain s2 where
    "migrate_all_datasets (catalogue five_events) (fresh_process (committed s1) []) = (Inr (), s2)"
    "committed s2 = committed s1" "commits s2 = 0"
    by blast
  with run1 show ?thesis by simp
qed

end
